theory Spec2Isabelle
  imports Main
begin

section \<open>Python string operations used by the sources\<close>

text \<open>
  Python strings are modelled as \<^typ>\<open>string\<close>. The case conversions below are the
  ASCII part of \<open>str.lower\<close> and \<open>str.title\<close>: a character outside \<open>A-Z\<close>, \<open>a-z\<close>
  is left as it is.
\<close>

text \<open>\<open>sep.join(xs)\<close>\<close>

fun join :: "string \<Rightarrow> string list \<Rightarrow> string" where
  "join sep [] = []"
| "join sep [x] = x"
| "join sep (x # y # ys) = x @ sep @ join sep (y # ys)"

text \<open>\<open>s.startswith(p)\<close>\<close>

fun startswith :: "string \<Rightarrow> string \<Rightarrow> bool" where
  "startswith s [] = True"
| "startswith [] (p # ps) = False"
| "startswith (c # cs) (p # ps) = (c = p \<and> startswith cs ps)"

text \<open>\<open>c in s\<close> for a one-character \<open>c\<close>\<close>

definition contains :: "string \<Rightarrow> char \<Rightarrow> bool" where
  "contains s c = (c \<in> set s)"

text \<open>
  \<open>s.split(sep)\<close> for a one-character separator: the pieces between the separators,
  empty pieces kept, so that the result is never the empty list (the first case of the
  \<open>case\<close> below never arises).
\<close>

fun split :: "char \<Rightarrow> string \<Rightarrow> string list" where
  "split sep [] = [[]]"
| "split sep (c # cs) =
     (if c = sep then [] # split sep cs
      else (case split sep cs of
              [] \<Rightarrow> [[c]]
            | w # ws \<Rightarrow> (c # w) # ws))"

text \<open>
  \<open>s.replace(old, new)\<close>: the occurrences of \<open>old\<close> are found from the left and do
  not overlap; an empty \<open>old\<close> matches before every character and at the end.
\<close>

function replace :: "string \<Rightarrow> string \<Rightarrow> string \<Rightarrow> string" where
  "replace old new [] = (if old = [] then new else [])"
| "replace old new (c # cs) =
     (if old = [] then new @ concat (map (\<lambda>x. x # new) (c # cs))
      else if startswith (c # cs) old
           then new @ replace old new (drop (length old) (c # cs))
           else c # replace old new cs)"
  by pat_completeness auto
termination
  by (relation "measure (\<lambda>(old, new, s). length s)") auto

text \<open>
  \<open>s.rsplit(sep, maxsplit=1)[0]\<close> for a one-character separator: what stands before
  the last separator, or all of \<open>s\<close> when it has none.
\<close>

definition rsplit_head :: "char \<Rightarrow> string \<Rightarrow> string" where
  "rsplit_head sep s =
     (if sep \<in> set s then rev (tl (dropWhile (\<lambda>c. c \<noteq> sep) (rev s))) else s)"

definition is_upper :: "char \<Rightarrow> bool" where
  "is_upper c = (let n = (of_char c :: nat) in 65 \<le> n \<and> n \<le> 90)"

definition is_lower :: "char \<Rightarrow> bool" where
  "is_lower c = (let n = (of_char c :: nat) in 97 \<le> n \<and> n \<le> 122)"

text \<open>
  The codes of \<open>A\<close> and \<open>a\<close> differ by 32, the bit of index 5, which is clear in every
  uppercase letter and set in every lowercase one.
\<close>

fun lower_char :: "char \<Rightarrow> char" where
  "lower_char (Char b0 b1 b2 b3 b4 b5 b6 b7) =
     (if is_upper (Char b0 b1 b2 b3 b4 b5 b6 b7) then Char b0 b1 b2 b3 b4 True b6 b7
      else Char b0 b1 b2 b3 b4 b5 b6 b7)"

fun upper_char :: "char \<Rightarrow> char" where
  "upper_char (Char b0 b1 b2 b3 b4 b5 b6 b7) =
     (if is_lower (Char b0 b1 b2 b3 b4 b5 b6 b7) then Char b0 b1 b2 b3 b4 False b6 b7
      else Char b0 b1 b2 b3 b4 b5 b6 b7)"

text \<open>\<open>s.lower()\<close>\<close>

definition lower :: "string \<Rightarrow> string" where
  "lower s = map lower_char s"

text \<open>
  \<open>s.title()\<close>: a letter that follows a letter is lowercased, any other letter is
  uppercased. The flag says whether the previous character was a letter.
\<close>

fun title_from :: "bool \<Rightarrow> string \<Rightarrow> string" where
  "title_from prev [] = []"
| "title_from prev (c # cs) =
     (if is_upper c \<or> is_lower c
      then (if prev then lower_char c else upper_char c) # title_from True cs
      else c # title_from False cs)"

definition title :: "string \<Rightarrow> string" where
  "title s = title_from False s"

text \<open>
  \<open>re.findall("[A-Z][^A-Z]*", s)\<close>: each match starts at an uppercase letter and runs
  to the next one; what stands before the first uppercase letter matches nothing.
\<close>

function findall_camel :: "string \<Rightarrow> string list" where
  "findall_camel [] = []"
| "findall_camel (c # cs) =
     (if is_upper c
      then (c # takeWhile (\<lambda>x. \<not> is_upper x) cs)
             # findall_camel (dropWhile (\<lambda>x. \<not> is_upper x) cs)
      else findall_camel cs)"
  by pat_completeness auto
termination
  by (relation "measure length") (auto simp: length_dropWhile_le less_Suc_eq_le)

section \<open>The REST call wrapper: \<open>pulp/client/connection.py\<close>\<close>

text \<open>
  \<open>RestlibException(code, msg)\<close> is the only exception the wrapper raises itself.
  \<open>json.loads\<close> raises \<open>ValueError\<close> on a body that is not JSON, and the connection
  may fail before any response exists. \<open>KeyError\<close> and \<open>AttributeError\<close> are what
  the schema generator below can run into: a missing dictionary key, an attribute read
  on \<open>None\<close>.
\<close>

datatype error =
    RestlibException int string
  | ValueError
  | ConnectionError
  | KeyError string
  | AttributeError

record response =
  status :: int
  body :: string

text \<open>
  The collaborators of \<open>Restlib._request\<close>: \<open>json.dumps\<close>, \<open>json.loads\<close> (whose
  result may be Python's \<open>None\<close>, for the document \<open>null\<close>) and the connection, which
  takes the request type, the handler and the encoded body and hands back the response.
\<close>

record ('i, 'j) restlib =
  apihandler :: string
  json_dumps :: "'i \<Rightarrow> string"
  json_loads :: "string \<Rightarrow> error + 'j option"
  conn :: "string \<Rightarrow> string \<Rightarrow> string \<Rightarrow> error + response"

text \<open>
  \<open>validateResponse\<close>: raises unless the status is one of 200, 201, 202, 204; the
  exception carries the status and \<open>response.read()\<close>.
\<close>

definition validateResponse :: "response \<Rightarrow> error + unit" where
  "validateResponse r =
     (if status r \<notin> set [200, 201, 202, 204]
      then Inl (RestlibException (status r) (body r))
      else Inr ())"

text \<open>
  \<open>_request\<close>: the result \<open>Inr None\<close> is Python's \<open>None\<close>.
\<close>

definition request :: "('i, 'j) restlib \<Rightarrow> string \<Rightarrow> string \<Rightarrow> 'i \<Rightarrow> error + 'j option" where
  "request self request_type method info =
     (let handler = (if \<not> startswith method (apihandler self)
                     then join ''/'' [apihandler self, method]
                     else method)
      in case conn self request_type handler (json_dumps self info) of
           Inl e \<Rightarrow> Inl e
         | Inr response \<Rightarrow>
             if status response = 404 then Inr None
             else (case validateResponse response of
                     Inl e \<Rightarrow> Inl e
                   | Inr _ \<Rightarrow>
                       (let rinfo = body response
                        in if length rinfo = 0 then Inr None
                           else json_loads self rinfo)))"

section \<open>The schema customisation: \<open>pulpcore/openapi/__init__.py\<close>\<close>

subsection \<open>Views and schemas\<close>

text \<open>
  What the code reads of a Django model class: \<open>model._meta.app_label\<close> and
  \<open>model.__name__\<close>.
\<close>

record model =
  app_label :: string
  model_name :: string

text \<open>
  What the code reads of a parent viewset: \<open>parent_viewset.queryset.model\<close>
  (\<open>None\<close> here when the queryset is \<open>None\<close>, where the attribute read raises),
  \<open>endpoint_name\<close> and the list \<open>endpoint_pieces()\<close> returns.
\<close>

record parent_viewset =
  pv_queryset_model :: "model option"
  endpoint_name :: string
  pv_endpoint_pieces :: "string list"

text \<open>
  What the code reads of a view. An optional attribute is an option, \<open>None\<close> when
  the view has no such attribute: \<open>parent_viewset\<close>, \<open>endpoint_pieces\<close> (its result),
  \<open>get_view_name\<close> (its result, already cut into words by \<open>split()\<close>),
  \<open>pulp_tag_name\<close>, \<open>action\<close>, \<open>model\<close> (which may itself hold \<open>None\<close>).
  \<open>queryset\<close> is \<open>None\<close> when the attribute is missing or \<open>None\<close>, and else
  holds \<open>queryset.model\<close>. \<open>create_model_mixin\<close> says whether the view's class
  derives from \<open>CreateModelMixin\<close>, and \<open>module\<close> is \<open>view.__module__\<close>.
\<close>

record view =
  parent_viewset :: "parent_viewset option"
  endpoint_pieces :: "string list option"
  view_name_words :: "string list option"
  pulp_tag_name :: "string option"
  action :: "string option"
  queryset :: "model option"
  view_model :: "model option option"
  create_model_mixin :: bool
  module :: string

text \<open>
  An operation as far as \<open>parse\<close> touches it; \<open>parameters\<close> is \<open>None\<close> when the
  operation has no such key. A parameter is what \<open>build_parameter_type\<close> is given.
\<close>

record parameter =
  parameter_name :: string
  parameter_schema_type :: string
  parameter_location :: string
  parameter_description :: string

record operation =
  operationId :: string
  description :: string
  parameters :: "parameter list option"

text \<open>
  A \<open>PulpAutoSchema\<close> bound to its view and HTTP method. \<open>schema_path\<close> is
  \<open>self.path\<close>, which \<open>get_operation\<close> sets to the path it is given. The rest is
  what the base class \<open>AutoSchema\<close> of drf-spectacular computes: \<open>_is_list_view()\<close>;
  its own \<open>_tokenize_path()\<close>, which reads \<open>self.path\<close> and is a function of it
  here; \<open>base_operation\<close>, the operation \<open>get_operation\<close> assembles for a path
  before the operation id is filled in, \<open>None\<close> when the operation was removed with
  \<open>@extend_schema\<close>; and \<open>operation_id_override\<close>, the \<open>operation_id\<close> given to
  \<open>@extend_schema\<close>, where the view has one.
\<close>

record schema =
  view :: view
  "method" :: string
  schema_path :: string
  is_list_view :: bool
  super_tokenize_path :: "string \<Rightarrow> string list"
  base_operation :: "string \<Rightarrow> operation option"
  operation_id_override :: "string option"

subsection \<open>\<open>PulpAutoSchema\<close>\<close>

definition method_mapping :: "(string \<times> string) list" where
  "method_mapping =
     [(''get'', ''read''), (''post'', ''create''), (''put'', ''update''),
      (''patch'', ''partial_update''), (''delete'', ''delete'')]"

text \<open>\<open>_tokenize_path\<close>\<close>

definition tokenize_path :: "schema \<Rightarrow> string list" where
  "tokenize_path self =
     (let tokenized_path = [];
          tokenized_path = (case parent_viewset (view self) of
                              Some p \<Rightarrow> tokenized_path @ pv_endpoint_pieces p
                            | None \<Rightarrow> tokenized_path);
          tokenized_path = (case endpoint_pieces (view self) of
                              Some pieces \<Rightarrow> tokenized_path @ pieces
                            | None \<Rightarrow> tokenized_path);
          tokenized_path =
            (if tokenized_path = []
             then (let tokenized_path = super_tokenize_path self (schema_path self)
                   in if tokenized_path = []
                      then (case view_name_words (view self) of
                              Some ws \<Rightarrow> tokenized_path @ ws
                            | None \<Rightarrow> tokenized_path)
                      else tokenized_path)
             else tokenized_path);
          path = replace ''pulp/api/v3/'' '''' (join ''/'' tokenized_path)
      in split CHR ''/'' path)"

text \<open>
  \<open>get_tags\<close>, from the tokenized path on. \<open>del operation_keys[-2]\<close> removes the
  element of index \<open>len - 2\<close>, which exists as the list has more than two elements;
  \<open>operation_keys[0]\<close> exists as the list has more than one.
\<close>

definition tags_of_path :: "string list \<Rightarrow> string list" where
  "tags_of_path tokenized_path =
     (let subpath = join ''/'' tokenized_path;
          operation_keys = split CHR ''/'' (replace ''pulp/api/v3/'' '''' subpath);
          operation_keys = map title operation_keys;
          operation_keys =
            (if length operation_keys > 2
             then take (length operation_keys - 2) operation_keys
                    @ drop (length operation_keys - 1) operation_keys
             else operation_keys);
          operation_keys =
            (if length operation_keys > 1
             then operation_keys[0 := (operation_keys ! 0) @ '':'']
             else operation_keys)
      in [join '' '' operation_keys])"

text \<open>
  \<open>get_tags\<close>: \<open>pulp_tag_name\<close> counts when the view has it and it is not empty.
\<close>

definition get_tags :: "schema \<Rightarrow> string list" where
  "get_tags self =
     (case pulp_tag_name (view self) of
        Some n \<Rightarrow> if n \<noteq> [] then [n] else tags_of_path (tokenize_path self)
      | None \<Rightarrow> tags_of_path (tokenize_path self))"

text \<open>
  \<open>get_operation_id_action\<close>: the lookup in \<open>method_mapping\<close> raises \<open>KeyError\<close>
  for a method outside the table.
\<close>

definition get_operation_id_action :: "schema \<Rightarrow> error + string" where
  "get_operation_id_action self =
     (let action_name = (case action (view self) of
                           Some a \<Rightarrow> a
                         | None \<Rightarrow> lower (method self))
      in if action_name \<notin> set [''retrieve'', ''list'', ''destroy'', ''create'']
         then Inr action_name
         else if lower (method self) = ''get'' \<and> is_list_view self then Inr ''list''
         else (case map_of method_mapping (lower (method self)) of
                 Some a \<Rightarrow> Inr a
               | None \<Rightarrow> Inl (KeyError (lower (method self)))))"

text \<open>\<open>get_operation_id\<close>\<close>

definition get_operation_id :: "schema \<Rightarrow> error + string" where
  "get_operation_id self =
     (let tokenized_path = tokenize_path self;
          tokenized_path =
            map (\<lambda>t. lower (replace ''/'' ''_'' (replace ''-'' ''_'' t))) tokenized_path
      in case get_operation_id_action self of
           Inl e \<Rightarrow> Inl e
         | Inr a \<Rightarrow> Inr (join ''_'' (tokenized_path @ [a])))"

text \<open>
  Python dictionaries with string keys, as association lists in insertion order:
  \<open>k in d\<close>, \<open>d[k] = v\<close> (in place when the key is there, at the end otherwise) and
  \<open>d.pop(k)\<close> for a key that is there.
\<close>

definition dict_in :: "string \<Rightarrow> (string \<times> 'v) list \<Rightarrow> bool" where
  "dict_in k d = (k \<in> set (map fst d))"

fun dict_set :: "string \<Rightarrow> 'v \<Rightarrow> (string \<times> 'v) list \<Rightarrow> (string \<times> 'v) list" where
  "dict_set k v [] = [(k, v)]"
| "dict_set k v ((k', v') # d) = (if k' = k then (k, v) # d else (k', v') # dict_set k v d)"

fun dict_pop :: "string \<Rightarrow> (string \<times> 'v) list \<Rightarrow> error + 'v \<times> (string \<times> 'v) list" where
  "dict_pop k [] = Inl (KeyError k)"
| "dict_pop k ((k', v') # d) =
     (if k' = k then Inr (v', d)
      else (case dict_pop k d of
              Inl e \<Rightarrow> Inl e
            | Inr (v, d') \<Rightarrow> Inr (v, (k', v') # d')))"

text \<open>
  The values of a request body: \<open>True\<close> is the only one the code writes, the others
  stand for what the base class has put there.
\<close>

datatype body_value = PyTrue | Other string

text \<open>
  \<open>_get_request_body\<close>, given what \<open>super()._get_request_body()\<close> returned; \<open>None\<close>
  and the empty dictionary are the falsy results.
\<close>

definition get_request_body ::
    "(string \<times> body_value) list option \<Rightarrow> (string \<times> body_value) list option" where
  "get_request_body request_body =
     (case request_body of
        None \<Rightarrow> None
      | Some d \<Rightarrow> if d \<noteq> [] then Some (dict_set ''required'' PyTrue d) else Some d)"

text \<open>
  \<open>_get_response_bodies\<close>, given what \<open>super()._get_response_bodies()\<close> returned.
\<close>

definition get_response_bodies ::
    "schema \<Rightarrow> (string \<times> 'b) list \<Rightarrow> error + (string \<times> 'b) list" where
  "get_response_bodies self response =
     (if method self = ''POST'' \<and> create_model_mixin (view self) \<and> dict_in ''200'' response
      then (case dict_pop ''200'' response of
              Inl e \<Rightarrow> Inl e
            | Inr (v, response') \<Rightarrow> Inr (dict_set ''201'' v response'))
      else Inr response)"

subsection \<open>\<open>PulpSchemaGenerator\<close>\<close>

text \<open>
  \<open>get_parameter_slug_from_model\<close>; the prefix counts when it is neither \<open>None\<close> nor
  empty.
\<close>

definition get_parameter_slug_from_model :: "model \<Rightarrow> string option \<Rightarrow> string" where
  "get_parameter_slug_from_model m prefix =
     (let parts = map lower (findall_camel (model_name m));
          parts = (case prefix of
                     Some p \<Rightarrow> if p \<noteq> [] then p # parts else parts
                   | None \<Rightarrow> parts);
          parts = (if app_label m \<noteq> ''core'' then app_label m # parts else parts);
          parts = parts @ [''href'']
      in join ''_'' parts)"

text \<open>
  \<open>convert_endpoint_path_params\<close>, in parts. \<open>nested_prefix\<close> is the prefix of a
  route that is nested and not a list. \<open>resource_model_of\<close> is the choice of the resource
  model: \<open>None\<close> where the view has neither a queryset nor a \<open>model\<close> attribute,
  \<open>Some None\<close> where that attribute is falsy. \<open>resource_param_name\<close> goes on to
  \<open>param_name\<close>: it is \<open>None\<close> where the function gives the path back for want of a
  resource model, and it raises \<open>AttributeError\<close> where the queryset of the parent
  viewset is \<open>None\<close>. The last part is the function itself.
\<close>

definition nested_prefix :: "model \<Rightarrow> parent_viewset \<Rightarrow> string" where
  "nested_prefix parent_model pv =
     lower (replace ''/'' ''_'' (replace ''-'' ''_''
       (join ''_'' [app_label parent_model, endpoint_name pv])))"

definition resource_model_of :: "view \<Rightarrow> model option option" where
  "resource_model_of v =
     (case queryset v of
        None \<Rightarrow> view_model v
      | Some m \<Rightarrow> Some (Some m))"

definition resource_param_name :: "view \<Rightarrow> schema \<Rightarrow> error + string option" where
  "resource_param_name v sch =
     (case resource_model_of v of
        None \<Rightarrow> Inr None
      | Some None \<Rightarrow> Inr None
      | Some (Some resource_model) \<Rightarrow>
          (case parent_viewset v of
             None \<Rightarrow> Inr (Some (get_parameter_slug_from_model resource_model None))
           | Some pv \<Rightarrow>
               (case pv_queryset_model pv of
                  None \<Rightarrow> Inl AttributeError
                | Some parent_model \<Rightarrow>
                    if is_list_view sch
                    then Inr (Some (get_parameter_slug_from_model parent_model None))
                    else Inr (Some (get_parameter_slug_from_model resource_model
                                      (Some (nested_prefix parent_model pv)))))))"

definition convert_endpoint_path_params :: "string \<Rightarrow> view \<Rightarrow> schema \<Rightarrow> error + string" where
  "convert_endpoint_path_params path v sch =
     (if \<not> contains path CHR ''{'' then Inr path
      else case resource_param_name v sch of
             Inl e \<Rightarrow> Inl e
           | Inr None \<Rightarrow> Inr path
           | Inr (Some param_name) \<Rightarrow>
               (let resource_path = rsplit_head CHR ''}'' path @ ''}/''
                in Inr (replace resource_path (''{'' @ param_name @ ''}'') path)))"

text \<open>
  The request for the document, as far as \<open>parse\<close> reads it: its query parameters,
  a dictionary.
\<close>

record docs_request =
  query_params :: "(string \<times> string) list"

text \<open>
  A route as \<open>_get_paths_and_endpoints\<close> yields it: the path and the schema of its
  view, bound to the route's method.
\<close>

record endpoint =
  orig_path :: string
  ep_schema :: schema

text \<open>
  The generator: its mount \<open>url\<close>, the routes it has found, and the collaborators of
  \<open>parse\<close> that are not of this repository: \<open>has_view_permissions\<close>, Django's
  \<open>strip_tags\<close> and \<open>urljoin\<close>.
\<close>

record generator =
  url :: "string option"
  endpoints :: "endpoint list"
  has_view_permissions :: "string \<Rightarrow> string \<Rightarrow> view \<Rightarrow> bool"
  strip_tags :: "string \<Rightarrow> string"
  urljoin :: "string \<Rightarrow> string \<Rightarrow> string"

text \<open>
  \<open>get_operation\<close> of drf-spectacular, as far as \<open>parse\<close> depends on it: nothing
  for a removed operation; else it sets \<open>self.path\<close> and assembles the operation with
  \<open>operation["operationId"] = self.get_operation_id()\<close>, which is the
  \<open>operation_id\<close> of \<open>@extend_schema\<close> where the view has one and the method of
  \<open>PulpAutoSchema\<close> otherwise.
\<close>

definition get_operation :: "schema \<Rightarrow> string \<Rightarrow> error + operation option" where
  "get_operation self path =
     (case base_operation self path of
        None \<Rightarrow> Inr None
      | Some operation \<Rightarrow>
          (let self = self\<lparr>schema_path := path\<rparr>
           in case operation_id_override self of
                Some i \<Rightarrow> Inr (Some (operation\<lparr>operationId := i\<rparr>))
              | None \<Rightarrow>
                  (case get_operation_id self of
                     Inl e \<Rightarrow> Inl e
                   | Inr i \<Rightarrow> Inr (Some (operation\<lparr>operationId := i\<rparr>)))))"

text \<open>
  The document under construction: path, then lowercased method, then operation.
\<close>

type_synonym paths = "string \<rightharpoonup> (string \<rightharpoonup> operation)"

definition fields_parameter :: parameter where
  "fields_parameter =
     \<lparr>parameter_name = ''fields'', parameter_schema_type = ''string'', parameter_location = ''query'',
      parameter_description = ''A list of fields to include in the response.''\<rparr>"

definition not_fields_parameter :: parameter where
  "not_fields_parameter =
     \<lparr>parameter_name = ''exclude_fields'', parameter_schema_type = ''string'',
      parameter_location = ''query'',
      parameter_description = ''A list of fields to exclude from the response.''\<rparr>"

text \<open>
  The end of the inner loop of \<open>parse\<close>: the path is normalised for the mount url,
  unless it starts with a placeholder.
\<close>

definition path_key :: "generator \<Rightarrow> string \<Rightarrow> string" where
  "path_key self path =
     (let path = (if startswith path ''/'' then drop 1 path else path)
      in if \<not> startswith path ''{''
         then urljoin self
                (case url self of
                   Some u \<Rightarrow> if u \<noteq> [] then u else ''/''
                 | None \<Rightarrow> ''/'')
                path
         else path)"

text \<open>
  The body of the inner loop of \<open>parse\<close>, for one path of a route. Reading
  \<open>request.query_params\<close> raises \<open>AttributeError\<close> when there is no request. After
  \<open>get_operation\<close> the schema has the path of this round as its \<open>self.path\<close>.
\<close>

definition parse_path ::
    "generator \<Rightarrow> docs_request option \<Rightarrow> schema \<Rightarrow> paths \<Rightarrow> string \<Rightarrow> error + paths" where
  "parse_path self req sch result path =
     (case get_operation sch path of
        Inl e \<Rightarrow> Inl e
      | Inr None \<Rightarrow> Inr result
      | Inr (Some operation) \<Rightarrow>
          (case req of
             None \<Rightarrow> Inl AttributeError
           | Some r \<Rightarrow>
               (let operation =
                      (if \<not> dict_in ''include_html'' (query_params r)
                       then operation\<lparr>description := strip_tags self (description operation)\<rparr>
                       else operation);
                    sch = sch\<lparr>schema_path := path\<rparr>
                in case (if dict_in ''bindings'' (query_params r)
                         then (let tokenized_path = join ''_''
                                     (map (\<lambda>t. lower (replace ''/'' ''_'' (replace ''-'' ''_'' t)))
                                        (tokenize_path sch))
                               in case get_operation_id_action sch of
                                    Inl e \<Rightarrow> Inl e
                                  | Inr a \<Rightarrow>
                                      if tokenized_path @ ''_'' @ a = operationId operation
                                      then Inr (operation\<lparr>operationId := a\<rparr>)
                                      else Inr operation)
                         else Inr operation) of
                     Inl e \<Rightarrow> Inl e
                   | Inr operation \<Rightarrow>
                       (let operation =
                              (case parameters operation of
                                 Some ps \<Rightarrow>
                                   if lower (method sch) = ''get''
                                   then operation\<lparr>parameters :=
                                          Some (ps @ [fields_parameter, not_fields_parameter])\<rparr>
                                   else operation
                               | None \<Rightarrow> operation);
                            path = path_key self path;
                            entry = (case result path of Some ops \<Rightarrow> ops | None \<Rightarrow> Map.empty)
                        in Inr (result(path \<mapsto> entry(lower (method sch) \<mapsto> operation)))))))"

text \<open>The inner loop: \<open>for path in endpoint_paths\<close>.\<close>

fun parse_paths ::
    "generator \<Rightarrow> docs_request option \<Rightarrow> schema \<Rightarrow> paths \<Rightarrow> string list \<Rightarrow> error + paths" where
  "parse_paths self req sch result [] = Inr result"
| "parse_paths self req sch result (path # rest) =
     (case parse_path self req sch result path of
        Inl e \<Rightarrow> Inl e
      | Inr result' \<Rightarrow> parse_paths self req sch result' rest)"

text \<open>
  The body of the outer loop, for one route; \<open>plugins\<close> is the plugin filter, \<open>None\<close>
  when there is none. The plugin of a view is the first piece of its module name, which
  exists as \<open>split\<close> never returns the empty list.
\<close>

definition parse_endpoint ::
    "generator \<Rightarrow> docs_request option \<Rightarrow> string list option \<Rightarrow> paths \<Rightarrow> endpoint
       \<Rightarrow> error + paths" where
  "parse_endpoint self req plugins result ep =
     (let sch = ep_schema ep;
          v = view sch;
          plugin = hd (split CHR ''.'' (module v))
      in if (case plugins of Some ps \<Rightarrow> ps \<noteq> [] \<and> plugin \<notin> set ps | None \<Rightarrow> False)
         then Inr result
         else if \<not> has_view_permissions self (orig_path ep) (method sch) v then Inr result
         else (case convert_endpoint_path_params (orig_path ep) v sch of
                 Inl e \<Rightarrow> Inl e
               | Inr converted \<Rightarrow>
                   parse_paths self req sch result [orig_path ep, converted]))"

text \<open>The outer loop.\<close>

fun parse_endpoints ::
    "generator \<Rightarrow> docs_request option \<Rightarrow> string list option \<Rightarrow> paths \<Rightarrow> endpoint list
       \<Rightarrow> error + paths" where
  "parse_endpoints self req plugins result [] = Inr result"
| "parse_endpoints self req plugins result (ep # eps) =
     (case parse_endpoint self req plugins result ep of
        Inl e \<Rightarrow> Inl e
      | Inr result' \<Rightarrow> parse_endpoints self req plugins result' eps)"

text \<open>
  \<open>parse\<close>. The routes are those of the generator, whatever \<open>public\<close> is.
\<close>

definition parse :: "generator \<Rightarrow> docs_request option \<Rightarrow> bool \<Rightarrow> error + paths" where
  "parse self req public =
     (let plugins = (case req of
                       Some r \<Rightarrow>
                         (case map_of (query_params r) ''plugin'' of
                            Some p \<Rightarrow> Some [p]
                          | None \<Rightarrow> None)
                     | None \<Rightarrow> None)
      in parse_endpoints self req plugins Map.empty (endpoints self))"

section \<open>The specification's wording, and notions to state the properties\<close>

text \<open>\<open>old in s\<close>: the string \<open>old\<close> occurs in \<open>s\<close>.\<close>

fun str_in :: "string \<Rightarrow> string \<Rightarrow> bool" where
  "str_in old [] = (old = [])"
| "str_in old (c # cs) = (startswith (c # cs) old \<or> str_in old cs)"

text \<open>
  Tag derivation as the specification words it: title-case every token; with more than
  two tokens, drop the second-to-last; with more than one token left, append a colon to
  the first; join with spaces.
\<close>

definition tag_spec :: "string list \<Rightarrow> string" where
  "tag_spec tokens =
     (let ts = map title tokens;
          ts = (if length ts > 2 then butlast (butlast ts) @ [last ts] else ts);
          ts = (if length ts > 1 then (hd ts @ '':'') # tl ts else ts)
      in join '' '' ts)"

text \<open>
  The operation id as the specification words it: the tokens lowercased, with every
  \<open>-\<close> and \<open>/\<close> turned into \<open>_\<close>, joined with \<open>_\<close>, then \<open>_\<close> and the action.
\<close>

definition operation_id_spec :: "string list \<Rightarrow> string \<Rightarrow> string" where
  "operation_id_spec tokens a =
     join ''_''
       (map (\<lambda>t. map (\<lambda>c. if c = CHR ''-'' \<or> c = CHR ''/'' then CHR ''_'' else c) (lower t))
          tokens)
     @ ''_'' @ a"

text \<open>
  The action as the specification words it: the canonical name of the HTTP method,
  unless the view declares an action outside the four the code treats as standard,
  which wins, or the method is GET on a list route, which gives \<open>list\<close>.
\<close>

definition canonical_action :: "string \<Rightarrow> string option" where
  "canonical_action m =
     map_of [(''GET'', ''read''), (''POST'', ''create''), (''PUT'', ''update''),
             (''PATCH'', ''partial_update''), (''DELETE'', ''delete'')] m"

definition method_action :: "schema \<Rightarrow> string option" where
  "method_action self =
     (if method self = ''GET'' \<and> is_list_view self then Some ''list''
      else canonical_action (method self))"

definition action_spec :: "schema \<Rightarrow> string option" where
  "action_spec self =
     (case action (view self) of
        Some a \<Rightarrow>
          if a \<notin> set [''retrieve'', ''list'', ''destroy'', ''create''] then Some a
          else method_action self
      | None \<Rightarrow> method_action self)"

text \<open>
  The operation id of the entry a document holds under a path and a lowercased method,
  if there is a document and it has such an entry.
\<close>

definition operation_id_at :: "error + paths \<Rightarrow> string \<Rightarrow> string \<Rightarrow> string option" where
  "operation_id_at doc path m =
     (case doc of
        Inl e \<Rightarrow> None
      | Inr result \<Rightarrow>
          (case result path of
             None \<Rightarrow> None
           | Some ops \<Rightarrow> map_option operationId (ops m)))"

text \<open>
  The operation id of an entry, for a schema whose \<open>self.path\<close> is set: the
  \<open>operation_id\<close> of \<open>@extend_schema\<close> if there is one, else that of
  \<open>get_operation_id\<close>; when the request asks for bindings, the action alone if the
  id is the tokens, \<open>_\<close> and the action.
\<close>

definition entry_operation_id :: "docs_request \<Rightarrow> schema \<Rightarrow> error + string" where
  "entry_operation_id r sch =
     (case (case operation_id_override sch of
              Some i \<Rightarrow> Inr i
            | None \<Rightarrow> get_operation_id sch) of
        Inl e \<Rightarrow> Inl e
      | Inr i \<Rightarrow>
          if dict_in ''bindings'' (query_params r)
          then (case get_operation_id_action sch of
                  Inl e \<Rightarrow> Inl e
                | Inr a \<Rightarrow>
                    if join ''_'' (map (\<lambda>t. lower (replace ''/'' ''_'' (replace ''-'' ''_'' t)))
                                   (tokenize_path sch)) @ ''_'' @ a = i
                    then Inr a else Inr i)
          else Inr i)"

text \<open>
  The tokens a view supplies itself: the endpoint pieces of its parent viewset and its
  own. Where there are some, \<open>_tokenize_path\<close> does not ask the base class.
\<close>

definition view_tokens :: "view \<Rightarrow> string list" where
  "view_tokens v =
     (case parent_viewset v of Some p \<Rightarrow> pv_endpoint_pieces p | None \<Rightarrow> [])
     @ (case endpoint_pieces v of Some pieces \<Rightarrow> pieces | None \<Rightarrow> [])"

text \<open>
  A route is admitted when it passes the plugin filter of the request and the
  permission check.
\<close>

definition admitted :: "generator \<Rightarrow> docs_request \<Rightarrow> endpoint \<Rightarrow> bool" where
  "admitted self r ep =
     ((case map_of (query_params r) ''plugin'' of
         Some p \<Rightarrow> hd (split CHR ''.'' (module (view (ep_schema ep)))) = p
       | None \<Rightarrow> True) \<and>
      has_view_permissions self (orig_path ep) (method (ep_schema ep)) (view (ep_schema ep)))"

text \<open>
  The places of the document a route may write to: the key of its path and the key of
  its renamed path, each with its lowercased method.
\<close>

definition entry_keys :: "generator \<Rightarrow> endpoint \<Rightarrow> (string \<times> string) list" where
  "entry_keys self ep =
     (path_key self (orig_path ep), lower (method (ep_schema ep)))
     # (case convert_endpoint_path_params (orig_path ep) (view (ep_schema ep)) (ep_schema ep) of
          Inl e \<Rightarrow> []
        | Inr converted \<Rightarrow> [(path_key self converted, lower (method (ep_schema ep)))])"

text \<open>
  The parameter name of a route nested under a parent viewset with model
  \<open>parent_model\<close>, for a view with resource model \<open>m\<close>: for a list route the slug of
  the parent's model, else the slug of \<open>m\<close> with the prefix of the parent.
\<close>

definition nested_param_name :: "parent_viewset \<Rightarrow> model \<Rightarrow> model \<Rightarrow> bool \<Rightarrow> string" where
  "nested_param_name pv parent_model m is_list =
     (if is_list then get_parameter_slug_from_model parent_model None
      else get_parameter_slug_from_model m (Some (nested_prefix parent_model pv)))"

section \<open>Example routes\<close>

text \<open>
  The repositories of Pulp and their versions: the version routes are nested under the
  repository viewset, one a list route, one a detail route.
\<close>

definition Repository :: model where
  "Repository = \<lparr>app_label = ''core'', model_name = ''Repository''\<rparr>"

definition RepositoryVersion :: model where
  "RepositoryVersion = \<lparr>app_label = ''core'', model_name = ''RepositoryVersion''\<rparr>"

definition RepositoryViewSet :: parent_viewset where
  "RepositoryViewSet =
     \<lparr>pv_queryset_model = Some Repository, endpoint_name = ''repositories'',
      pv_endpoint_pieces = [''repositories'']\<rparr>"

definition blank_operation :: operation where
  "blank_operation = \<lparr>operationId = [], description = ''Versions.'', parameters = Some []\<rparr>"

definition versions_view :: "string \<Rightarrow> view" where
  "versions_view a =
     \<lparr>parent_viewset = Some RepositoryViewSet, endpoint_pieces = Some [''versions''],
      view_name_words = None, pulp_tag_name = None, action = Some a,
      queryset = Some RepositoryVersion, view_model = None, create_model_mixin = False,
      module = ''pulpcore.app.viewsets''\<rparr>"

definition versions_list :: schema where
  "versions_list =
     \<lparr>view = versions_view ''list'', method = ''GET'', schema_path = [],
      is_list_view = True, super_tokenize_path = (\<lambda>_. []),
      base_operation = (\<lambda>_. Some blank_operation), operation_id_override = None\<rparr>"

definition versions_detail :: schema where
  "versions_detail =
     \<lparr>view = versions_view ''retrieve'', method = ''GET'', schema_path = [],
      is_list_view = False, super_tokenize_path = (\<lambda>_. []),
      base_operation = (\<lambda>_. Some blank_operation), operation_id_override = None\<rparr>"

text \<open>
  A view that is no viewset and so has no \<open>action\<close>: the status view, tokenized by the
  base class.
\<close>

definition status_schema :: schema where
  "status_schema =
     \<lparr>view = \<lparr>parent_viewset = None, endpoint_pieces = None, view_name_words = None,
              pulp_tag_name = None, action = None, queryset = None, view_model = None,
              create_model_mixin = False, module = ''pulpcore.app.views''\<rparr>,
      method = ''GET'', schema_path = [], is_list_view = False,
      super_tokenize_path = (\<lambda>_. [''status'']),
      base_operation = (\<lambda>_. Some blank_operation), operation_id_override = None\<rparr>"

text \<open>
  A generator with one route, the detail route of the versions, mounted nowhere, where
  everything is permitted, descriptions hold no markup and \<open>urljoin\<close> is what it is
  for the base \<open>/\<close> and a relative path.
\<close>

definition versions_generator :: generator where
  "versions_generator =
     \<lparr>url = None,
      endpoints = [\<lparr>orig_path = ''/pulp/api/v3/repositories/{repository_pk}/versions/{number}/'',
                    ep_schema = versions_detail\<rparr>],
      has_view_permissions = (\<lambda>_ _ _. True),
      strip_tags = (\<lambda>s. s),
      urljoin = (\<lambda>base p. base @ p)\<rparr>"

definition plain_request :: docs_request where
  "plain_request = \<lparr>query_params = []\<rparr>"

section \<open>Properties of the REST call wrapper\<close>

text \<open>
  Claim C3. Whatever the call, when the connection answers with status 404 the call
  returns the empty result and raises nothing; when it answers with another status that
  is not one of 200, 201, 202, 204 (500, say), the call raises \<open>RestlibException\<close> with
  that status and the raw body of the response.
\<close>

theorem request_status_handling:
  assumes "conn self request_type
             (if \<not> startswith meth (apihandler self)
              then join ''/'' [apihandler self, meth] else meth)
             (json_dumps self info) = Inr r"
  shows "(status r = 404 \<longrightarrow> request self request_type meth info = Inr None) \<and>
         (status r \<noteq> 404 \<and> status r \<notin> {200, 201, 202, 204} \<longrightarrow>
            request self request_type meth info = Inl (RestlibException (status r) (body r)))"
  using assms by (simp add: request_def validateResponse_def Let_def)

theorem request_status_handling_witness:
  "request \<lparr>apihandler = ''/pulp/api'', json_dumps = (\<lambda>_::unit. ''null''),
            json_loads = (\<lambda>_. Inr (None :: unit option)),
            conn = (\<lambda>_ h _. if h = ''/pulp/api/repositories/r1/''
                              then Inr \<lparr>status = 404, body = ''gone''\<rparr>
                              else Inr \<lparr>status = 500, body = ''boom''\<rparr>)\<rparr>
     ''GET'' ''repositories/r1/'' () = Inr None \<and>
   request \<lparr>apihandler = ''/pulp/api'', json_dumps = (\<lambda>_::unit. ''null''),
            json_loads = (\<lambda>_. Inr (None :: unit option)),
            conn = (\<lambda>_ h _. if h = ''/pulp/api/repositories/r1/''
                              then Inr \<lparr>status = 404, body = ''gone''\<rparr>
                              else Inr \<lparr>status = 500, body = ''boom''\<rparr>)\<rparr>
     ''GET'' ''/pulp/api/users/'' () = Inl (RestlibException 500 ''boom'')"
proof -
  let ?self = "\<lparr>apihandler = ''/pulp/api'', json_dumps = (\<lambda>_::unit. ''null''),
            json_loads = (\<lambda>_. Inr (None :: unit option)),
            conn = (\<lambda>_ h _. if h = ''/pulp/api/repositories/r1/''
                              then Inr \<lparr>status = 404, body = ''gone''\<rparr>
                              else Inr \<lparr>status = 500, body = ''boom''\<rparr>)\<rparr>"
  have ha: "conn ?self ''GET''
             (if \<not> startswith ''repositories/r1/'' (apihandler ?self)
              then join ''/'' [apihandler ?self, ''repositories/r1/'']
              else ''repositories/r1/'')
             (json_dumps ?self ()) = Inr \<lparr>status = 404, body = ''gone''\<rparr>"
    by simp
  have hb: "conn ?self ''GET''
             (if \<not> startswith ''/pulp/api/users/'' (apihandler ?self)
              then join ''/'' [apihandler ?self, ''/pulp/api/users/'']
              else ''/pulp/api/users/'')
             (json_dumps ?self ()) = Inr \<lparr>status = 500, body = ''boom''\<rparr>"
    by simp
  have a: "request ?self ''GET'' ''repositories/r1/'' () = Inr None"
    using request_status_handling [OF ha] by simp
  have b: "request ?self ''GET'' ''/pulp/api/users/'' () = Inl (RestlibException 500 ''boom'')"
    using request_status_handling [OF hb] by simp
  show ?thesis using a b by simp
qed

text \<open>
  Claim C9. When the connection answers with one of the accepted statuses 200, 201,
  202, 204 and an empty body, the call returns the empty result without calling
  \<open>json.loads\<close>; it is the very result a 404 gives, so the caller cannot tell them apart.
\<close>

theorem request_empty_body:
  assumes "conn self request_type
             (if \<not> startswith meth (apihandler self)
              then join ''/'' [apihandler self, meth] else meth)
             (json_dumps self info) = Inr r"
      and "status r \<in> {200, 201, 202, 204}"
      and "body r = []"
  shows "request (self\<lparr>json_loads := loads\<rparr>) request_type meth info = Inr None \<and>
         request (self\<lparr>conn := (\<lambda>_ _ _. Inr (r\<lparr>status := 404\<rparr>))\<rparr>) request_type meth info
           = request self request_type meth info"
  using assms by (auto simp add: request_def validateResponse_def Let_def)

theorem request_empty_body_witness:
  "request \<lparr>apihandler = ''/pulp/api'', json_dumps = (\<lambda>_::unit. ''null''),
            json_loads = (\<lambda>_. Inl ValueError :: error + unit option),
            conn = (\<lambda>_ _ _. Inr \<lparr>status = 204, body = ''''\<rparr>)\<rparr>
     ''DELETE'' ''/repositories/r1/'' () = Inr None"
proof -
  let ?self = "\<lparr>apihandler = ''/pulp/api'', json_dumps = (\<lambda>_::unit. ''null''),
            json_loads = (\<lambda>_. Inl ValueError :: error + unit option),
            conn = (\<lambda>_ _ _. Inr \<lparr>status = 204, body = ''''\<rparr>)\<rparr>"
  let ?r = "\<lparr>status = 204, body = ''''\<rparr>"
  have h1: "conn ?self ''DELETE''
             (if \<not> startswith ''/repositories/r1/'' (apihandler ?self)
              then join ''/'' [apihandler ?self, ''/repositories/r1/'']
              else ''/repositories/r1/'')
             (json_dumps ?self ()) = Inr ?r"
    by simp
  have h2: "status ?r \<in> {200, 201, 202, 204}" by simp
  have h3: "body ?r = []" by simp
  show ?thesis
    using request_empty_body [OF h1 h2 h3, of "\<lambda>_. Inl ValueError"] by simp
qed

section \<open>Lemmas on the string operations\<close>

lemma split_not_Nil: "split sep s \<noteq> []"
  by (induction s) (auto split: list.splits)

lemma split_no_sep: "sep \<notin> set s \<Longrightarrow> split sep s = [s]"
  by (induction s) auto

lemma split_append_sep: "sep \<notin> set t \<Longrightarrow> split sep (t @ sep # rest) = t # split sep rest"
  by (induction t) auto

lemma split_join:
  "ts \<noteq> [] \<Longrightarrow> \<forall>t \<in> set ts. sep \<notin> set t \<Longrightarrow> split sep (join [sep] ts) = ts"
  by (induction "[sep]" ts rule: join.induct) (auto simp: split_no_sep split_append_sep)

lemma split_pieces_no_sep: "t \<in> set (split sep s) \<Longrightarrow> sep \<notin> set t"
proof (induction s arbitrary: t)
  case Nil
  then show ?case by simp
next
  case (Cons c cs)
  show ?case
  proof (cases "c = sep")
    case True
    with Cons show ?thesis by auto
  next
    case False
    obtain w ws where r: "split sep cs = w # ws"
      using split_not_Nil [of sep cs] by (cases "split sep cs") auto
    with Cons.prems False have "t = c # w \<or> t \<in> set ws" by auto
    then show ?thesis
    proof
      assume "t = c # w"
      moreover have "sep \<notin> set w" using Cons.IH [of w] r by simp
      ultimately show ?thesis using False by auto
    next
      assume "t \<in> set ws"
      then show ?thesis using Cons.IH [of t] r by simp
    qed
  qed
qed

lemma replace_absent: "old \<noteq> [] \<Longrightarrow> \<not> str_in old s \<Longrightarrow> replace old new s = s"
  by (induction old new s rule: replace.induct) auto

lemma replace_char: "replace [x] [y] s = map (\<lambda>c. if c = x then y else c) s"
  by (induction "[x]" "[y]" s rule: replace.induct) (auto split: if_splits)

lemma join_snoc: "xs \<noteq> [] \<Longrightarrow> join sep (xs @ [a]) = join sep xs @ sep @ a"
  by (induction sep xs rule: join.induct) auto

lemma del_second_to_last:
  assumes "length xs > 2"
  shows "take (length xs - 2) xs @ drop (length xs - 1) xs = butlast (butlast xs) @ [last xs]"
proof -
  have "butlast (butlast xs) = take (length xs - 2) xs"
    by (simp add: butlast_conv_take numeral_2_eq_2)
  moreover have "drop (length xs - 1) xs = [last xs]"
  proof -
    have "xs \<noteq> []" using assms by auto
    then have "xs = butlast xs @ [last xs]" by simp
    then have "drop (length (butlast xs)) xs = [last xs]"
      by (metis append_eq_conv_conj)
    then show ?thesis by simp
  qed
  ultimately show ?thesis by simp
qed

lemma set_first: "length xs > 1 \<Longrightarrow> xs[0 := (xs ! 0) @ v] = (hd xs @ v) # tl xs"
  by (cases xs) auto

lemma tag_steps:
  "(let ks = (if length ks0 > 2
              then take (length ks0 - 2) ks0 @ drop (length ks0 - 1) ks0 else ks0);
        ks = (if length ks > 1 then ks[0 := (ks ! 0) @ '':''] else ks)
    in join '' '' ks)
   = (let ts = (if length ks0 > 2 then butlast (butlast ks0) @ [last ks0] else ks0);
          ts = (if length ts > 1 then (hd ts @ '':'') # tl ts else ts)
      in join '' '' ts)"
proof -
  define k1 where "k1 = (if length ks0 > 2
              then take (length ks0 - 2) ks0 @ drop (length ks0 - 1) ks0 else ks0)"
  have a: "k1 = (if length ks0 > 2 then butlast (butlast ks0) @ [last ks0] else ks0)"
    unfolding k1_def using del_second_to_last [of ks0] by simp
  have b: "(if length k1 > 1 then k1[0 := (k1 ! 0) @ '':''] else k1)
         = (if length k1 > 1 then (hd k1 @ '':'') # tl k1 else k1)"
    using set_first [of k1] by simp
  show ?thesis
    unfolding Let_def k1_def [symmetric] b unfolding a ..
qed

lemma tags_of_path_spec:
  "tags_of_path ts = [tag_spec (split CHR ''/'' (replace ''pulp/api/v3/'' '''' (join ''/'' ts)))]"
  using tag_steps [of "map title (split CHR ''/'' (replace ''pulp/api/v3/'' '''' (join ''/'' ts)))"]
  unfolding tags_of_path_def tag_spec_def Let_def by simp

lemma tokenize_path_not_Nil: "tokenize_path self \<noteq> []"
  by (simp add: tokenize_path_def Let_def split_not_Nil)

lemma tokenize_path_no_slash: "t \<in> set (tokenize_path self) \<Longrightarrow> CHR ''/'' \<notin> set t"
  unfolding tokenize_path_def Let_def by (rule split_pieces_no_sep)


lemma startswith_subset: "startswith s p \<Longrightarrow> set p \<subseteq> set s"
  by (induction s p rule: startswith.induct) auto

lemma str_in_subset: "str_in old s \<Longrightarrow> set old \<subseteq> set s"
proof (induction s)
  case Nil
  then show ?case by simp
next
  case (Cons a s)
  from Cons.prems have "startswith (a # s) old \<or> str_in old s" by simp
  then show ?case
  proof
    assume "startswith (a # s) old"
    then show ?thesis by (rule startswith_subset)
  next
    assume "str_in old s"
    then have "set old \<subseteq> set s" by (rule Cons.IH)
    then show ?thesis by auto
  qed
qed

section \<open>Properties of the schema customisation\<close>


text \<open>
  Claim C2. Without an override in \<open>pulp_tag_name\<close>, \<open>get_tags\<close> returns one tag:
  the tokens the path is cut into, each title-cased, the second-to-last dropped when
  there are more than two, a colon appended to the first when more than one is left,
  joined with spaces. These tokens are those of \<open>_tokenize_path\<close> whenever the API
  prefix does not occur in them any more. The path \<open>a/b/c\<close> gives \<open>A: C\<close>, and a path
  of one token gives that token title-cased, without a colon.
\<close>

theorem get_tags_derivation:
  "(pulp_tag_name (view self) \<in> {None, Some []} \<longrightarrow>
      get_tags self =
        [tag_spec (split CHR ''/'' (replace ''pulp/api/v3/'' '''' (join ''/'' (tokenize_path self))))]) \<and>
   (pulp_tag_name (view self) \<in> {None, Some []} \<and>
    \<not> str_in ''pulp/api/v3/'' (join ''/'' (tokenize_path self)) \<longrightarrow>
      get_tags self = [tag_spec (tokenize_path self)]) \<and>
   tags_of_path [''a'', ''b'', ''c''] = [''A: C''] \<and>
   (CHR ''/'' \<notin> set t \<longrightarrow> tags_of_path [t] = [title t])"
proof (intro conjI impI)
  assume "pulp_tag_name (view self) \<in> {None, Some []}"
  then show "get_tags self =
        [tag_spec (split CHR ''/'' (replace ''pulp/api/v3/'' '''' (join ''/'' (tokenize_path self))))]"
    by (auto simp: get_tags_def tags_of_path_spec)
next
  assume a: "pulp_tag_name (view self) \<in> {None, Some []} \<and>
    \<not> str_in ''pulp/api/v3/'' (join ''/'' (tokenize_path self))"
  have "replace ''pulp/api/v3/'' '''' (join ''/'' (tokenize_path self)) = join ''/'' (tokenize_path self)"
    using a by (simp add: replace_absent)
  moreover have "split CHR ''/'' (join ''/'' (tokenize_path self)) = tokenize_path self"
    using split_join [of "tokenize_path self" "CHR ''/''"] tokenize_path_not_Nil tokenize_path_no_slash
    by blast
  ultimately show "get_tags self = [tag_spec (tokenize_path self)]"
    using a by (auto simp: get_tags_def tags_of_path_spec)
next
  show "tags_of_path [''a'', ''b'', ''c''] = [''A: C'']"
    by (simp add: tags_of_path_def title_def is_upper_def is_lower_def)
next
  assume a: "CHR ''/'' \<notin> set t"
  have "\<not> str_in ''pulp/api/v3/'' t"
    using a str_in_subset [of "''pulp/api/v3/''" t] by auto
  then have "replace ''pulp/api/v3/'' '''' t = t" by (simp add: replace_absent)
  then show "tags_of_path [t] = [title t]"
    using a by (simp add: tags_of_path_spec split_no_sep tag_spec_def)
qed


theorem get_tags_derivation_witness:
  "get_tags versions_detail = [''Repositories: Versions''] \<and>
   tags_of_path [''status''] = [''Status'']"
proof -
  have a: "pulp_tag_name (view versions_detail) \<in> {None, Some []}"
    by (simp add: versions_detail_def versions_view_def)
  have t: "tokenize_path versions_detail = [''repositories'', ''versions'']"
    by (simp add: tokenize_path_def versions_detail_def versions_view_def RepositoryViewSet_def)
  have b: "\<not> str_in ''pulp/api/v3/'' (join ''/'' (tokenize_path versions_detail))"
    unfolding t by simp
  have c: "CHR ''/'' \<notin> set ''status''" by simp
  have "get_tags versions_detail = [tag_spec (tokenize_path versions_detail)]"
    by (rule mp [OF get_tags_derivation [THEN conjunct2, THEN conjunct1] conjI [OF a b]])
  moreover have "tags_of_path [''status''] = [title ''status'']"
    by (rule mp [OF get_tags_derivation
          [THEN conjunct2, THEN conjunct2, THEN conjunct2] c])
  ultimately show ?thesis
    unfolding t by (simp add: tag_spec_def title_def is_upper_def is_lower_def)
qed


lemma of_char_lower_char:
  "of_char (lower_char c) = (if is_upper c then of_char c + 32 else (of_char c :: nat))"
  by (cases c) (auto simp: is_upper_def)

lemma lower_char_eq_nonletter:
  assumes "(of_char x :: nat) < 97"
  shows "lower_char c = x \<longleftrightarrow> c = x \<and> \<not> is_upper x"
proof
  assume a: "lower_char c = x"
  have "\<not> is_upper c"
  proof
    assume "is_upper c"
    then have "(of_char (lower_char c) :: nat) = of_char c + 32" "65 \<le> (of_char c :: nat)"
      by (simp_all add: of_char_lower_char is_upper_def Let_def)
    then show False using a assms by simp
  qed
  then have "(of_char (lower_char c) :: nat) = of_char c" by (simp add: of_char_lower_char)
  then have "c = x" using a by simp
  then show "c = x \<and> \<not> is_upper x" using \<open>\<not> is_upper c\<close> by simp
next
  assume a: "c = x \<and> \<not> is_upper x"
  then have "(of_char (lower_char c) :: nat) = of_char x" by (simp add: of_char_lower_char)
  then show "lower_char c = x" by simp
qed

lemma lower_char_special:
  "lower_char c = CHR ''-'' \<longleftrightarrow> c = CHR ''-''"
  "lower_char c = CHR ''/'' \<longleftrightarrow> c = CHR ''/''"
  by (simp_all add: lower_char_eq_nonletter is_upper_def)

lemma normalise_token:
  "lower (replace ''/'' ''_'' (replace ''-'' ''_'' t))
   = map (\<lambda>c. if c = CHR ''-'' \<or> c = CHR ''/'' then CHR ''_'' else c) (lower t)"
  by (simp add: replace_char lower_def lower_char_special is_upper_def)

text \<open>
  Claim C7. \<open>get_operation_id\<close> returns the tokens of \<open>_tokenize_path\<close>, lowercased
  and with every \<open>-\<close> and \<open>/\<close> turned into \<open>_\<close>, joined with \<open>_\<close>, followed by
  \<open>_\<close> and the action \<open>get_operation_id_action\<close> resolves; where that raises, so
  does \<open>get_operation_id\<close>.
\<close>

theorem get_operation_id_spec:
  "get_operation_id self =
     (case get_operation_id_action self of
        Inl e \<Rightarrow> Inl e
      | Inr a \<Rightarrow> Inr (operation_id_spec (tokenize_path self) a))"
  unfolding get_operation_id_def operation_id_spec_def Let_def normalise_token
  by (simp add: join_snoc tokenize_path_not_Nil split: sum.splits)

theorem get_operation_id_spec_witness:
  "get_operation_id versions_detail = Inr ''repositories_versions_read''"
proof -
  have t: "tokenize_path versions_detail = [''repositories'', ''versions'']"
    by (simp add: tokenize_path_def versions_detail_def versions_view_def RepositoryViewSet_def)
  have a: "get_operation_id_action versions_detail = Inr ''read''"
    by (simp add: get_operation_id_action_def versions_detail_def versions_view_def
        method_mapping_def lower_def is_upper_def)
  show ?thesis
    using get_operation_id_spec [of versions_detail] unfolding t a
    by (simp add: operation_id_spec_def lower_def is_upper_def)
qed


lemma canonical_action_cases:
  assumes "canonical_action m = Some c"
  shows "(m, c) \<in> {(''GET'', ''read''), (''POST'', ''create''), (''PUT'', ''update''),
             (''PATCH'', ''partial_update''), (''DELETE'', ''delete'')}"
  using assms unfolding canonical_action_def by (simp split: if_splits)

lemma canonical_action_lower:
  assumes "canonical_action m = Some c"
  shows "map_of method_mapping (lower m) = Some c \<and> (lower m = ''get'' \<longleftrightarrow> m = ''GET'')
         \<and> lower m \<notin> set [''retrieve'', ''list'', ''destroy'', ''create'']"
  using canonical_action_cases [OF assms]
  by (auto simp: method_mapping_def lower_def is_upper_def)

text \<open>
  Claim C4, as stated, fails on a view that declares no action: for GET on the status
  view, which is no list route, the claim gives \<open>read\<close> and the code gives \<open>get\<close>.
\<close>

theorem get_operation_id_action_counterexample:
  "action (view status_schema) = None \<and> method status_schema = ''GET'' \<and>
   \<not> is_list_view status_schema \<and>
   action_spec status_schema = Some ''read'' \<and>
   get_operation_id_action status_schema = Inr ''get''"
  by (simp add: status_schema_def action_spec_def method_action_def canonical_action_def
      get_operation_id_action_def lower_def is_upper_def)

text \<open>
  Claim C4, amended. On a view that declares an action, \<open>get_operation_id_action\<close>
  returns what the claim says: the declared action when it is none of \<open>retrieve\<close>,
  \<open>list\<close>, \<open>destroy\<close>, \<open>create\<close>; else \<open>list\<close> for GET on a list route; else the
  canonical name of the method. On a view that declares none, it returns the
  lowercased name of the method, for each of the five methods.
\<close>

theorem get_operation_id_action_resolution:
  "(action (view self) \<noteq> None \<and> action_spec self = Some c \<longrightarrow>
      get_operation_id_action self = Inr c) \<and>
   (action (view self) = None \<and> canonical_action (method self) \<noteq> None \<longrightarrow>
      get_operation_id_action self = Inr (lower (method self)))"
proof (intro conjI impI)
  assume a: "action (view self) \<noteq> None \<and> action_spec self = Some c"
  then obtain a' where a': "action (view self) = Some a'" by auto
  show "get_operation_id_action self = Inr c"
  proof (cases "a' \<in> set [''retrieve'', ''list'', ''destroy'', ''create'']")
    case False
    then show ?thesis using a a' by (simp add: get_operation_id_action_def action_spec_def)
  next
    case True
    then have m: "method_action self = Some c" using a a' by (simp add: action_spec_def)
    show ?thesis
    proof (cases "method self = ''GET'' \<and> is_list_view self")
      case True
      then have "lower (method self) = ''get''" by (simp add: lower_def is_upper_def)
      then show ?thesis using True m \<open>a' \<in> _\<close> a'
        by (simp add: get_operation_id_action_def method_action_def)
    next
      case False
      then have "canonical_action (method self) = Some c" using m
        by (auto simp add: method_action_def split: if_splits)
      from canonical_action_lower [OF this] show ?thesis using False \<open>a' \<in> _\<close> a'
        by (auto simp add: get_operation_id_action_def)
    qed
  qed
next
  assume a: "action (view self) = None \<and> canonical_action (method self) \<noteq> None"
  then obtain c where "canonical_action (method self) = Some c" by auto
  from canonical_action_lower [OF this] show "get_operation_id_action self = Inr (lower (method self))"
    using a by (simp add: get_operation_id_action_def)
qed

theorem get_operation_id_action_resolution_witness:
  "get_operation_id_action versions_list = Inr ''list'' \<and>
   get_operation_id_action status_schema = Inr ''get''"
proof -
  have a: "action (view versions_list) \<noteq> None \<and> action_spec versions_list = Some ''list''"
    by (simp add: versions_list_def versions_view_def action_spec_def method_action_def)
  have b: "action (view status_schema) = None \<and> canonical_action (method status_schema) \<noteq> None"
    by (simp add: status_schema_def canonical_action_def)
  have "get_operation_id_action versions_list = Inr ''list''"
    by (rule mp [OF get_operation_id_action_resolution [THEN conjunct1] a])
  moreover have "get_operation_id_action status_schema = Inr (lower (method status_schema))"
    by (rule mp [OF get_operation_id_action_resolution [THEN conjunct2] b])
  ultimately show ?thesis by (simp add: status_schema_def lower_def is_upper_def)
qed

subsection \<open>Dictionaries\<close>

lemma map_of_dict_set: "map_of (dict_set k v d) = (map_of d)(k \<mapsto> v)"
  by (induction d) (auto simp: fun_eq_iff)

lemma dict_in_map_of: "dict_in k d \<longleftrightarrow> map_of d k \<noteq> None"
  by (simp add: dict_in_def map_of_eq_None_iff)

lemma dict_pop_map_of:
  "distinct (map fst d) \<Longrightarrow> map_of d k = Some v \<Longrightarrow>
     \<exists>d'. dict_pop k d = Inr (v, d') \<and> map_of d' = (map_of d)(k := None)
          \<and> distinct (map fst d')"
proof (induction d)
  case Nil
  then show ?case by simp
next
  case (Cons p d)
  obtain k' v' where p: "p = (k', v')" by (cases p)
  show ?case
  proof (cases "k' = k")
    case True
    have n: "map_of d k = None" using Cons.prems(1) p True
      by (simp add: map_of_eq_None_iff)
    have v: "v' = v" using Cons.prems(2) p True by simp
    have "dict_pop k (p # d) = Inr (v, d)" using p True v by simp
    moreover have "map_of d = (map_of (p # d))(k := None)"
      using n p True by (auto simp: fun_eq_iff)
    moreover have "distinct (map fst d)" using Cons.prems(1) by simp
    ultimately show ?thesis by blast
  next
    case False
    then have "map_of d k = Some v" using Cons.prems(2) p by simp
    moreover have "distinct (map fst d)" using Cons.prems(1) by simp
    ultimately obtain d' where d': "dict_pop k d = Inr (v, d')"
      "map_of d' = (map_of d)(k := None)" "distinct (map fst d')"
      using Cons.IH by blast
    have "k' \<notin> fst ` set d'"
    proof
      assume "k' \<in> fst ` set d'"
      then have "map_of d' k' \<noteq> None" by (simp add: map_of_eq_None_iff)
      then have "map_of d k' \<noteq> None" using d'(2) False by (simp add: fun_eq_iff split: if_splits)
      then have "k' \<in> fst ` set d" by (simp add: map_of_eq_None_iff)
      then show False using Cons.prems(1) p by simp
    qed
    then show ?thesis using d' p False by (auto simp: fun_eq_iff)
  qed
qed

text \<open>
  Claim C5. For a POST on a view that derives from \<open>CreateModelMixin\<close>, when the
  responses hold a body under \<open>200\<close>, \<open>_get_response_bodies\<close> files that body under
  \<open>201\<close> and nothing under \<open>200\<close> any more, the other statuses kept; for another
  method, another kind of view, or responses without \<open>200\<close>, the responses are returned
  as they are. The keys of a dictionary are distinct.
\<close>

theorem post_create_200_becomes_201:
  assumes "distinct (map fst response)"
  shows "(method self = ''POST'' \<and> create_model_mixin (view self) \<and>
          map_of response ''200'' = Some b \<longrightarrow>
            (\<exists>r. get_response_bodies self response = Inr r \<and>
                 map_of r = ((map_of response)(''200'' := None))(''201'' \<mapsto> b))) \<and>
         (method self \<noteq> ''POST'' \<or> \<not> create_model_mixin (view self) \<or>
          map_of response ''200'' = None \<longrightarrow>
            get_response_bodies self response = Inr response)"
proof (intro conjI impI)
  assume a: "method self = ''POST'' \<and> create_model_mixin (view self) \<and>
          map_of response ''200'' = Some b"
  then obtain d' where d': "dict_pop ''200'' response = Inr (b, d')"
      "map_of d' = (map_of response)(''200'' := None)"
    using dict_pop_map_of [OF assms, of "''200''" b] by blast
  have "dict_in ''200'' response" using a by (simp add: dict_in_map_of)
  then have "get_response_bodies self response = Inr (dict_set ''201'' b d')"
    using a d'(1) by (simp add: get_response_bodies_def)
  then show "\<exists>r. get_response_bodies self response = Inr r \<and>
                 map_of r = ((map_of response)(''200'' := None))(''201'' \<mapsto> b)"
    using d'(2) by (simp add: map_of_dict_set)
next
  assume "method self \<noteq> ''POST'' \<or> \<not> create_model_mixin (view self) \<or>
          map_of response ''200'' = None"
  then show "get_response_bodies self response = Inr response"
    by (auto simp: get_response_bodies_def dict_in_map_of)
qed

theorem post_create_200_becomes_201_witness:
  "get_response_bodies (versions_list\<lparr>method := ''POST'',
       view := (versions_view ''create'')\<lparr>create_model_mixin := True\<rparr>\<rparr>)
     [(''200'', ''Version''), (''400'', ''Error'')]
   = Inr [(''400'', ''Error''), (''201'', ''Version'')] \<and>
   get_response_bodies versions_list [(''200'', ''Version'')] = Inr [(''200'', ''Version'')]"
proof -
  let ?s = "versions_list\<lparr>method := ''POST'',
       view := (versions_view ''create'')\<lparr>create_model_mixin := True\<rparr>\<rparr>"
  let ?r = "[(''200'', ''Version''), (''400'', ''Error'')]"
  have d: "distinct (map fst ?r)" by simp
  have d2: "distinct (map fst [(''200'', ''Version'')])" by simp
  have a: "method ?s = ''POST'' \<and> create_model_mixin (view ?s) \<and>
          map_of ?r ''200'' = Some ''Version''"
    by simp
  have b: "method versions_list \<noteq> ''POST'' \<or> \<not> create_model_mixin (view versions_list) \<or>
          map_of [(''200'', ''Version'')] ''200'' = None"
    by (simp add: versions_list_def)
  have "\<exists>r. get_response_bodies ?s ?r = Inr r \<and>
                 map_of r = ((map_of ?r)(''200'' := None))(''201'' \<mapsto> ''Version'')"
    by (rule mp [OF post_create_200_becomes_201 [OF d, THEN conjunct1] a])
  moreover have "get_response_bodies ?s ?r = Inr [(''400'', ''Error''), (''201'', ''Version'')]"
    by (simp add: get_response_bodies_def dict_in_def)
  moreover have "get_response_bodies versions_list [(''200'', ''Version'')] = Inr [(''200'', ''Version'')]"
    by (rule mp [OF post_create_200_becomes_201 [OF d2, THEN conjunct2] b])
  ultimately show ?thesis by simp
qed

text \<open>
  Claim C10. When the base class gives a request body, \<open>_get_request_body\<close> returns
  it with \<open>required\<close> set to \<open>True\<close> and every other key as it was; when it gives
  none, \<open>_get_request_body\<close> returns what it was given.
\<close>

theorem request_body_required:
  "(request_body = Some d \<and> d \<noteq> [] \<longrightarrow>
      (\<exists>d'. get_request_body request_body = Some d' \<and>
            map_of d' = (map_of d)(''required'' \<mapsto> PyTrue))) \<and>
   (request_body = None \<or> request_body = Some [] \<longrightarrow>
      get_request_body request_body = request_body)"
  by (auto simp: get_request_body_def map_of_dict_set)

theorem request_body_required_witness:
  "get_request_body (Some [(''content'', Other ''json'')])
     = Some [(''content'', Other ''json''), (''required'', PyTrue)] \<and>
   get_request_body None = None"
proof -
  have a: "Some [(''content'', Other ''json'')] = Some [(''content'', Other ''json'')] \<and>
           [(''content'', Other ''json'')] \<noteq> []" by simp
  have "\<exists>d'. get_request_body (Some [(''content'', Other ''json'')]) = Some d' \<and>
            map_of d' = (map_of [(''content'', Other ''json'')])(''required'' \<mapsto> PyTrue)"
    by (rule mp [OF request_body_required [THEN conjunct1] a])
  moreover have "get_request_body None = None"
    using request_body_required [of None "[]"] by simp
  moreover have "get_request_body (Some [(''content'', Other ''json'')])
     = Some [(''content'', Other ''json''), (''required'', PyTrue)]"
    by (simp add: get_request_body_def)
  ultimately show ?thesis by simp
qed

subsection \<open>Path parameters of nested routes\<close>

lemma versions_list_param_name:
  "resource_param_name (view versions_list) versions_list = Inr (Some ''repository_href'')"
  by (simp add: resource_param_name_def resource_model_of_def versions_list_def
      versions_view_def RepositoryViewSet_def Repository_def
      get_parameter_slug_from_model_def lower_def is_upper_def)

lemma versions_detail_param_name:
  "resource_param_name (view versions_detail) versions_detail
     = Inr (Some ''core_repositories_repository_version_href'')"
  by (simp add: resource_param_name_def resource_model_of_def versions_detail_def
      versions_view_def RepositoryViewSet_def Repository_def RepositoryVersion_def
      nested_prefix_def get_parameter_slug_from_model_def lower_def is_upper_def)

text \<open>
  Claim C1, as stated, fails for the two routes of the repository versions, both nested
  under the repository viewset: the list route gets the parameter \<open>repository_href\<close>,
  the detail route \<open>core_repositories_repository_version_href\<close>.
\<close>

theorem sibling_param_names_counterexample:
  "parent_viewset (view versions_list) = Some RepositoryViewSet \<and>
   parent_viewset (view versions_detail) = Some RepositoryViewSet \<and>
   convert_endpoint_path_params ''/pulp/api/v3/repositories/{repository_pk}/versions/''
     (view versions_list) versions_list = Inr ''{repository_href}versions/'' \<and>
   convert_endpoint_path_params ''/pulp/api/v3/repositories/{repository_pk}/versions/{number}/''
     (view versions_detail) versions_detail
     = Inr ''{core_repositories_repository_version_href}''"
proof -
  have "parent_viewset (view versions_list) = Some RepositoryViewSet"
    by (simp add: versions_list_def versions_view_def)
  moreover have "parent_viewset (view versions_detail) = Some RepositoryViewSet"
    by (simp add: versions_detail_def versions_view_def)
  moreover have "convert_endpoint_path_params
      ''/pulp/api/v3/repositories/{repository_pk}/versions/''
      (view versions_list) versions_list = Inr ''{repository_href}versions/''"
    unfolding convert_endpoint_path_params_def versions_list_param_name
    by (simp add: contains_def rsplit_head_def)
  moreover have "convert_endpoint_path_params
      ''/pulp/api/v3/repositories/{repository_pk}/versions/{number}/''
      (view versions_detail) versions_detail
      = Inr ''{core_repositories_repository_version_href}''"
    unfolding convert_endpoint_path_params_def versions_detail_param_name
    by (simp add: contains_def rsplit_head_def)
  ultimately show ?thesis by simp
qed

lemma nested_route_param_name:
  assumes "parent_viewset v = Some pv" and "pv_queryset_model pv = Some pm"
      and "resource_model_of v = Some (Some m)"
  shows "resource_param_name v s = Inr (Some (nested_param_name pv pm m (is_list_view s)))"
  using assms by (simp add: resource_param_name_def nested_param_name_def)

lemma nested_route_converted:
  assumes "parent_viewset v = Some pv" and "pv_queryset_model pv = Some pm"
      and "resource_model_of v = Some (Some m)" and "contains p CHR ''{''"
  shows "convert_endpoint_path_params p v s
           = Inr (replace (rsplit_head CHR ''}'' p @ ''}/'')
                    (''{'' @ nested_param_name pv pm m (is_list_view s) @ ''}'') p)"
  using assms(4) nested_route_param_name [OF assms(1-3), of s]
  by (simp add: convert_endpoint_path_params_def)

lemma sibling_names_agree:
  assumes "(is_list_view s1 \<and> is_list_view s2) \<or>
           (\<not> is_list_view s1 \<and> \<not> is_list_view s2 \<and> m1 = m2)"
  shows "nested_param_name pv pm m2 (is_list_view s2)
           = nested_param_name pv pm m1 (is_list_view s1)"
  using assms by (auto simp: nested_param_name_def)

text \<open>
  Claim C1, amended. Take two routes nested under the same parent viewset, the parent
  having a queryset and each view a resource model, each path holding a placeholder. If
  both are list routes, or if neither is and both views have the same resource model,
  then \<open>convert_endpoint_path_params\<close> synthesizes one parameter name for both, and
  returns each path with that name, in braces, in the place of the path up to its last
  placeholder and the slash that follows. The name is the slug of the parent's model for
  list routes, and the slug of the resource model with the prefix made of the parent's
  app label and endpoint name otherwise.
\<close>

theorem sibling_routes_same_param_name:
  assumes "parent_viewset v1 = Some pv" and "parent_viewset v2 = Some pv"
      and "pv_queryset_model pv = Some pm"
      and "resource_model_of v1 = Some (Some m1)" and "resource_model_of v2 = Some (Some m2)"
      and "contains p1 CHR ''{''" and "contains p2 CHR ''{''"
      and "(is_list_view s1 \<and> is_list_view s2) \<or>
           (\<not> is_list_view s1 \<and> \<not> is_list_view s2 \<and> m1 = m2)"
  shows "resource_param_name v1 s1
           = Inr (Some (nested_param_name pv pm m1 (is_list_view s1))) \<and>
         resource_param_name v2 s2
           = Inr (Some (nested_param_name pv pm m1 (is_list_view s1))) \<and>
         convert_endpoint_path_params p1 v1 s1
           = Inr (replace (rsplit_head CHR ''}'' p1 @ ''}/'')
                    (''{'' @ nested_param_name pv pm m1 (is_list_view s1) @ ''}'') p1) \<and>
         convert_endpoint_path_params p2 v2 s2
           = Inr (replace (rsplit_head CHR ''}'' p2 @ ''}/'')
                    (''{'' @ nested_param_name pv pm m1 (is_list_view s1) @ ''}'') p2)"
proof -
  note e = sibling_names_agree [OF assms(8), of pv pm]
  have "resource_param_name v1 s1
           = Inr (Some (nested_param_name pv pm m1 (is_list_view s1)))"
    by (rule nested_route_param_name [OF assms(1,3,4)])
  moreover have "resource_param_name v2 s2
           = Inr (Some (nested_param_name pv pm m1 (is_list_view s1)))"
    using nested_route_param_name [OF assms(2,3,5), of s2] e by simp
  moreover have "convert_endpoint_path_params p1 v1 s1
           = Inr (replace (rsplit_head CHR ''}'' p1 @ ''}/'')
                    (''{'' @ nested_param_name pv pm m1 (is_list_view s1) @ ''}'') p1)"
    by (rule nested_route_converted [OF assms(1,3,4,6)])
  moreover have "convert_endpoint_path_params p2 v2 s2
           = Inr (replace (rsplit_head CHR ''}'' p2 @ ''}/'')
                    (''{'' @ nested_param_name pv pm m1 (is_list_view s1) @ ''}'') p2)"
    using nested_route_converted [OF assms(2,3,5,7), of s2] e by simp
  ultimately show ?thesis by (intro conjI)
qed

theorem sibling_routes_same_param_name_witness:
  "convert_endpoint_path_params ''/pulp/api/v3/repositories/{repository_pk}/versions/''
     (view versions_list) versions_list = Inr ''{repository_href}versions/'' \<and>
   convert_endpoint_path_params ''/pulp/api/v3/repositories/{repository_pk}/content/''
     ((versions_view ''list'')\<lparr>endpoint_pieces := Some [''content''],
                                queryset := Some Repository\<rparr>)
     (versions_list\<lparr>method := ''POST''\<rparr>) = Inr ''{repository_href}content/'' \<and>
   resource_param_name (view versions_list) versions_list = Inr (Some ''repository_href'') \<and>
   resource_param_name
     ((versions_view ''list'')\<lparr>endpoint_pieces := Some [''content''],
                                queryset := Some Repository\<rparr>)
     (versions_list\<lparr>method := ''POST''\<rparr>) = Inr (Some ''repository_href'')"
proof -
  let ?v2 = "(versions_view ''list'')\<lparr>endpoint_pieces := Some [''content''],
                                        queryset := Some Repository\<rparr>"
  let ?s2 = "versions_list\<lparr>method := ''POST''\<rparr>"
  let ?p1 = "''/pulp/api/v3/repositories/{repository_pk}/versions/''"
  let ?p2 = "''/pulp/api/v3/repositories/{repository_pk}/content/''"
  have a1: "parent_viewset (view versions_list) = Some RepositoryViewSet"
    by (simp add: versions_list_def versions_view_def)
  have a2: "parent_viewset ?v2 = Some RepositoryViewSet"
    by (simp add: versions_view_def)
  have a3: "pv_queryset_model RepositoryViewSet = Some Repository"
    by (simp add: RepositoryViewSet_def)
  have a4: "resource_model_of (view versions_list) = Some (Some RepositoryVersion)"
    by (simp add: resource_model_of_def versions_list_def versions_view_def)
  have a5: "resource_model_of ?v2 = Some (Some Repository)"
    by (simp add: resource_model_of_def versions_view_def)
  have a6: "contains ?p1 CHR ''{''" by (simp add: contains_def)
  have a7: "contains ?p2 CHR ''{''" by (simp add: contains_def)
  have l: "is_list_view versions_list" by (simp add: versions_list_def)
  have a8: "(is_list_view versions_list \<and> is_list_view ?s2) \<or>
           (\<not> is_list_view versions_list \<and> \<not> is_list_view ?s2 \<and>
            RepositoryVersion = Repository)"
    using l by simp
  have n: "nested_param_name RepositoryViewSet Repository RepositoryVersion
             (is_list_view versions_list) = ''repository_href''"
    using l by (simp add: nested_param_name_def get_parameter_slug_from_model_def
        Repository_def lower_def is_upper_def)
  have r1: "rsplit_head CHR ''}'' ?p1 = ''/pulp/api/v3/repositories/{repository_pk''"
    by (simp add: rsplit_head_def)
  have r2: "rsplit_head CHR ''}'' ?p2 = ''/pulp/api/v3/repositories/{repository_pk''"
    by (simp add: rsplit_head_def)
  note t = sibling_routes_same_param_name [OF a1 a2 a3 a4 a5 a6 a7 a8]
  have c1: "convert_endpoint_path_params ?p1 (view versions_list) versions_list
              = Inr ''{repository_href}versions/''"
    using t [THEN conjunct2, THEN conjunct2, THEN conjunct1] unfolding n r1 by simp
  have c2: "convert_endpoint_path_params ?p2 ?v2 ?s2 = Inr ''{repository_href}content/''"
    using t [THEN conjunct2, THEN conjunct2, THEN conjunct2] unfolding n r2 by simp
  have c3: "resource_param_name (view versions_list) versions_list
              = Inr (Some ''repository_href'')"
    using t [THEN conjunct1] unfolding n .
  have c4: "resource_param_name ?v2 ?s2 = Inr (Some ''repository_href'')"
    using t [THEN conjunct2, THEN conjunct1] unfolding n .
  show ?thesis using c1 c2 c3 c4 by (intro conjI)
qed

subsection \<open>Operation ids across the document\<close>

lemma operation_id_at_update:
  "operation_id_at
     (Inr (result(k \<mapsto> (case result k of Some ops \<Rightarrow> ops | None \<Rightarrow> Map.empty)
                          (m \<mapsto> operation)))) k' m'
   = (if k' = k \<and> m' = m then Some (operationId operation)
      else operation_id_at (Inr result) k' m')"
  by (simp add: operation_id_at_def split: option.splits)

text \<open>What one round of the inner loop does to the document.\<close>

lemma parse_path_result:
  assumes "parse_path self req sch result path = Inr result'"
  shows "(base_operation sch path = None \<and> result' = result) \<or>
         (\<exists>r operation. req = Some r \<and>
            entry_operation_id r (sch\<lparr>schema_path := path\<rparr>) = Inr (operationId operation) \<and>
            result' = result(path_key self path \<mapsto>
              (case result (path_key self path) of Some ops \<Rightarrow> ops | None \<Rightarrow> Map.empty)
                (lower (method sch) \<mapsto> operation)))"
proof (cases "base_operation sch path")
  case None
  then show ?thesis using assms by (simp add: parse_path_def get_operation_def)
next
  case (Some op0)
  show ?thesis
  proof (cases req)
    case None
    then show ?thesis using assms Some
      by (auto simp: parse_path_def get_operation_def Let_def split: option.splits sum.splits)
  next
    case r: (Some r)
    define sch' where "sch' = sch\<lparr>schema_path := path\<rparr>"
    define i0 where "i0 = (case operation_id_override sch' of
              Some i \<Rightarrow> Inr i
            | None \<Rightarrow> get_operation_id sch')"
    have g: "get_operation sch path
               = (case i0 of Inl e \<Rightarrow> Inl e
                  | Inr i \<Rightarrow> Inr (Some (op0\<lparr>operationId := i\<rparr>)))"
      using Some unfolding get_operation_def i0_def sch'_def Let_def
      by (simp split: option.splits sum.splits)
    obtain i where i: "i0 = Inr i"
      using assms g by (cases i0) (auto simp: parse_path_def)
    define op1 where "op1 = (if \<not> dict_in ''include_html'' (query_params r)
                       then (op0\<lparr>operationId := i\<rparr>)
                              \<lparr>description := strip_tags self (description (op0\<lparr>operationId := i\<rparr>))\<rparr>
                       else op0\<lparr>operationId := i\<rparr>)"
    have i1: "operationId op1 = i" by (simp add: op1_def)
    define b where "b = (if dict_in ''bindings'' (query_params r)
                         then (let tokenized_path = join ''_''
                                     (map (\<lambda>t. lower (replace ''/'' ''_'' (replace ''-'' ''_'' t)))
                                        (tokenize_path sch'))
                               in case get_operation_id_action sch' of
                                    Inl e \<Rightarrow> Inl e
                                  | Inr a \<Rightarrow>
                                      if tokenized_path @ ''_'' @ a = operationId op1
                                      then Inr (op1\<lparr>operationId := a\<rparr>)
                                      else Inr op1)
                         else Inr op1)"
    have p: "parse_path self req sch result path
               = (case b of Inl e \<Rightarrow> Inl e
                  | Inr operation \<Rightarrow>
                       (let operation =
                              (case parameters operation of
                                 Some ps \<Rightarrow>
                                   if lower (method sch') = ''get''
                                   then operation\<lparr>parameters :=
                                          Some (ps @ [fields_parameter, not_fields_parameter])\<rparr>
                                   else operation
                               | None \<Rightarrow> operation);
                            path = path_key self path;
                            entry = (case result path of Some ops \<Rightarrow> ops | None \<Rightarrow> Map.empty)
                        in Inr (result(path \<mapsto> entry(lower (method sch') \<mapsto> operation)))))"
      unfolding parse_path_def g i b_def op1_def sch'_def r by (simp add: Let_def)
    obtain op2 where op2: "b = Inr op2"
      using assms p by (cases b) auto
    have e: "entry_operation_id r sch' = Inr (operationId op2)"
      using op2 i i1 unfolding b_def entry_operation_id_def i0_def [symmetric] Let_def
      by (auto split: if_splits sum.splits)
    define op3 where "op3 = (case parameters op2 of
                                 Some ps \<Rightarrow>
                                   if lower (method sch') = ''get''
                                   then op2\<lparr>parameters :=
                                          Some (ps @ [fields_parameter, not_fields_parameter])\<rparr>
                                   else op2
                               | None \<Rightarrow> op2)"
    have i3: "operationId op3 = operationId op2"
      by (simp add: op3_def split: option.splits)
    have m: "method sch' = method sch" by (simp add: sch'_def)
    have "result' = result(path_key self path \<mapsto>
              (case result (path_key self path) of Some ops \<Rightarrow> ops | None \<Rightarrow> Map.empty)
                (lower (method sch) \<mapsto> op3))"
      using assms unfolding p op2 op3_def m by (simp add: Let_def)
    moreover have "entry_operation_id r (sch\<lparr>schema_path := path\<rparr>) = Inr (operationId op3)"
      using e i3 by (simp add: sch'_def)
    ultimately show ?thesis using r by blast
  qed
qed

lemma parse_path_other:
  assumes "parse_path self req sch result path = Inr result'"
      and "(k, m) \<noteq> (path_key self path, lower (method sch))"
  shows "operation_id_at (Inr result') k m = operation_id_at (Inr result) k m"
  using parse_path_result [OF assms(1)] assms(2)
  by (auto simp: operation_id_at_update)

lemma parse_path_write:
  assumes "parse_path self (Some r) sch result path = Inr result'"
      and "base_operation sch path \<noteq> None"
  shows "\<exists>i. entry_operation_id r (sch\<lparr>schema_path := path\<rparr>) = Inr i \<and>
             operation_id_at (Inr result') (path_key self path) (lower (method sch)) = Some i"
  using parse_path_result [OF assms(1)] assms(2)
  by (auto simp: operation_id_at_update)

lemma parse_path_sound:
  assumes "parse_path self req sch result path = Inr result'"
      and "operation_id_at (Inr result') k m = Some i"
  shows "operation_id_at (Inr result) k m = Some i \<or>
         (\<exists>r. req = Some r \<and> m = lower (method sch) \<and> k = path_key self path \<and>
              entry_operation_id r (sch\<lparr>schema_path := path\<rparr>) = Inr i)"
  using parse_path_result [OF assms(1)] assms(2)
  by (auto simp: operation_id_at_update split: if_splits)


text \<open>What one round of the outer loop does: nothing, or two rounds of the inner one.\<close>

lemma parse_endpoint_cases:
  assumes "parse_endpoint self req plugins result ep = Inr result'"
  shows "result' = result \<or>
         (\<exists>converted mid.
            convert_endpoint_path_params (orig_path ep) (view (ep_schema ep)) (ep_schema ep)
              = Inr converted \<and>
            parse_path self req (ep_schema ep) result (orig_path ep) = Inr mid \<and>
            parse_path self req (ep_schema ep) mid converted = Inr result')"
  using assms unfolding parse_endpoint_def Let_def
  by (auto split: if_splits sum.splits)

lemma parse_endpoint_admitted:
  assumes "parse_endpoint self (Some r)
             (case map_of (query_params r) ''plugin'' of Some p \<Rightarrow> Some [p] | None \<Rightarrow> None)
             result ep = Inr result'"
      and "admitted self r ep"
      and "convert_endpoint_path_params (orig_path ep) (view (ep_schema ep)) (ep_schema ep)
              = Inr alias"
  shows "\<exists>mid. parse_path self (Some r) (ep_schema ep) result (orig_path ep) = Inr mid \<and>
               parse_path self (Some r) (ep_schema ep) mid alias = Inr result'"
  using assms unfolding parse_endpoint_def admitted_def Let_def
  by (auto split: if_splits sum.splits option.splits)

lemma parse_endpoint_sound:
  assumes "parse_endpoint self req plugins result ep = Inr result'"
      and "operation_id_at (Inr result') k m = Some i"
  shows "operation_id_at (Inr result) k m = Some i \<or>
         (\<exists>r path. req = Some r \<and>
            (path = orig_path ep \<or>
             convert_endpoint_path_params (orig_path ep) (view (ep_schema ep)) (ep_schema ep)
               = Inr path) \<and>
            m = lower (method (ep_schema ep)) \<and> k = path_key self path \<and>
            entry_operation_id r ((ep_schema ep)\<lparr>schema_path := path\<rparr>) = Inr i)"
proof -
  from parse_endpoint_cases [OF assms(1)] show ?thesis
  proof
    assume "result' = result"
    then show ?thesis using assms(2) by simp
  next
    assume "\<exists>converted mid.
            convert_endpoint_path_params (orig_path ep) (view (ep_schema ep)) (ep_schema ep)
              = Inr converted \<and>
            parse_path self req (ep_schema ep) result (orig_path ep) = Inr mid \<and>
            parse_path self req (ep_schema ep) mid converted = Inr result'"
    then obtain converted mid where
      c: "convert_endpoint_path_params (orig_path ep) (view (ep_schema ep)) (ep_schema ep)
            = Inr converted"
      and p1: "parse_path self req (ep_schema ep) result (orig_path ep) = Inr mid"
      and p2: "parse_path self req (ep_schema ep) mid converted = Inr result'"
      by blast
    from parse_path_sound [OF p2 assms(2)] show ?thesis
    proof
      assume "operation_id_at (Inr mid) k m = Some i"
      from parse_path_sound [OF p1 this] show ?thesis by blast
    next
      assume "\<exists>r. req = Some r \<and> m = lower (method (ep_schema ep)) \<and>
                  k = path_key self converted \<and>
                  entry_operation_id r ((ep_schema ep)\<lparr>schema_path := converted\<rparr>) = Inr i"
      then show ?thesis using c by blast
    qed
  qed
qed

lemma parse_endpoint_other:
  assumes "parse_endpoint self req plugins result ep = Inr result'"
      and "(k, m) \<notin> set (entry_keys self ep)"
  shows "operation_id_at (Inr result') k m = operation_id_at (Inr result) k m"
proof -
  from parse_endpoint_cases [OF assms(1)] show ?thesis
  proof
    assume "result' = result"
    then show ?thesis by simp
  next
    assume "\<exists>converted mid.
            convert_endpoint_path_params (orig_path ep) (view (ep_schema ep)) (ep_schema ep)
              = Inr converted \<and>
            parse_path self req (ep_schema ep) result (orig_path ep) = Inr mid \<and>
            parse_path self req (ep_schema ep) mid converted = Inr result'"
    then obtain converted mid where
      c: "convert_endpoint_path_params (orig_path ep) (view (ep_schema ep)) (ep_schema ep)
            = Inr converted"
      and p1: "parse_path self req (ep_schema ep) result (orig_path ep) = Inr mid"
      and p2: "parse_path self req (ep_schema ep) mid converted = Inr result'"
      by blast
    have k1: "(k, m) \<noteq> (path_key self (orig_path ep), lower (method (ep_schema ep)))"
      and k2: "(k, m) \<noteq> (path_key self converted, lower (method (ep_schema ep)))"
      using assms(2) c by (auto simp: entry_keys_def)
    show ?thesis
      using parse_path_other [OF p2 k2] parse_path_other [OF p1 k1] by simp
  qed
qed

lemma parse_endpoint_write:
  assumes "parse_endpoint self (Some r)
             (case map_of (query_params r) ''plugin'' of Some p \<Rightarrow> Some [p] | None \<Rightarrow> None)
             result ep = Inr result'"
      and "admitted self r ep"
      and "convert_endpoint_path_params (orig_path ep) (view (ep_schema ep)) (ep_schema ep)
              = Inr alias"
      and "base_operation (ep_schema ep) (orig_path ep) \<noteq> None"
      and "base_operation (ep_schema ep) alias \<noteq> None"
  shows "\<exists>i j. entry_operation_id r ((ep_schema ep)\<lparr>schema_path := orig_path ep\<rparr>) = Inr i \<and>
               entry_operation_id r ((ep_schema ep)\<lparr>schema_path := alias\<rparr>) = Inr j \<and>
               operation_id_at (Inr result') (path_key self alias)
                 (lower (method (ep_schema ep))) = Some j \<and>
               operation_id_at (Inr result') (path_key self (orig_path ep))
                 (lower (method (ep_schema ep)))
                 = Some (if path_key self (orig_path ep) = path_key self alias then j else i)"
proof -
  from parse_endpoint_admitted [OF assms(1-3)] obtain mid where
    p1: "parse_path self (Some r) (ep_schema ep) result (orig_path ep) = Inr mid"
    and p2: "parse_path self (Some r) (ep_schema ep) mid alias = Inr result'"
    by blast
  from parse_path_write [OF p1 assms(4)] obtain i where
    i: "entry_operation_id r ((ep_schema ep)\<lparr>schema_path := orig_path ep\<rparr>) = Inr i"
    and wi: "operation_id_at (Inr mid) (path_key self (orig_path ep))
               (lower (method (ep_schema ep))) = Some i"
    by blast
  from parse_path_write [OF p2 assms(5)] obtain j where
    j: "entry_operation_id r ((ep_schema ep)\<lparr>schema_path := alias\<rparr>) = Inr j"
    and wj: "operation_id_at (Inr result') (path_key self alias)
               (lower (method (ep_schema ep))) = Some j"
    by blast
  have "operation_id_at (Inr result') (path_key self (orig_path ep))
                 (lower (method (ep_schema ep)))
                 = Some (if path_key self (orig_path ep) = path_key self alias then j else i)"
  proof (cases "path_key self (orig_path ep) = path_key self alias")
    case True
    then show ?thesis using wj by simp
  next
    case False
    then have "(path_key self (orig_path ep), lower (method (ep_schema ep)))
                 \<noteq> (path_key self alias, lower (method (ep_schema ep)))" by simp
    from parse_path_other [OF p2 this] show ?thesis using wi False by simp
  qed
  then show ?thesis using i j wj by blast
qed

text \<open>The outer loop.\<close>

lemma parse_endpoints_sound:
  assumes "parse_endpoints self req plugins result eps = Inr result'"
      and "operation_id_at (Inr result') k m = Some i"
  shows "operation_id_at (Inr result) k m = Some i \<or>
         (\<exists>r. req = Some r \<and>
            (\<exists>ep \<in> set eps. \<exists>path.
               (path = orig_path ep \<or>
                convert_endpoint_path_params (orig_path ep) (view (ep_schema ep)) (ep_schema ep)
                  = Inr path) \<and>
               m = lower (method (ep_schema ep)) \<and> k = path_key self path \<and>
               entry_operation_id r ((ep_schema ep)\<lparr>schema_path := path\<rparr>) = Inr i))"
  using assms
proof (induction eps arbitrary: result)
  case Nil
  then show ?case by simp
next
  case (Cons ep rest)
  from Cons.prems(1) obtain mid where
    mid: "parse_endpoint self req plugins result ep = Inr mid"
    and rest: "parse_endpoints self req plugins mid rest = Inr result'"
    by (auto split: sum.splits)
  from Cons.IH [OF rest Cons.prems(2)] show ?case
  proof
    assume "operation_id_at (Inr mid) k m = Some i"
    from parse_endpoint_sound [OF mid this] show ?thesis by auto
  next
    assume "\<exists>r. req = Some r \<and>
            (\<exists>ep \<in> set rest. \<exists>path.
               (path = orig_path ep \<or>
                convert_endpoint_path_params (orig_path ep) (view (ep_schema ep)) (ep_schema ep)
                  = Inr path) \<and>
               m = lower (method (ep_schema ep)) \<and> k = path_key self path \<and>
               entry_operation_id r ((ep_schema ep)\<lparr>schema_path := path\<rparr>) = Inr i)"
    then show ?thesis by auto
  qed
qed

lemma parse_endpoints_ran:
  assumes "parse_endpoints self req plugins result eps = Inr result'"
      and "ep \<in> set eps"
  shows "\<exists>res res'. parse_endpoint self req plugins res ep = Inr res'"
  using assms
proof (induction eps arbitrary: result)
  case Nil
  then show ?case by simp
next
  case (Cons ep0 rest)
  from Cons.prems(1) obtain mid where
    mid: "parse_endpoint self req plugins result ep0 = Inr mid"
    and rest: "parse_endpoints self req plugins mid rest = Inr result'"
    by (auto split: sum.splits)
  show ?case
  proof (cases "ep = ep0")
    case True
    then show ?thesis using mid by blast
  next
    case False
    then have "ep \<in> set rest" using Cons.prems(2) by simp
    from Cons.IH [OF rest this] show ?thesis .
  qed
qed

lemma parse_endpoints_keep:
  assumes "parse_endpoints self req plugins result eps = Inr result'"
      and "\<forall>ep' \<in> set eps. ep' = ep \<or> (k, m) \<notin> set (entry_keys self ep')"
      and "\<And>res res'. parse_endpoint self req plugins res ep = Inr res' \<Longrightarrow>
             operation_id_at (Inr res') k m = Some x"
      and "ep \<in> set eps \<or> operation_id_at (Inr result) k m = Some x"
  shows "operation_id_at (Inr result') k m = Some x"
  using assms(1,2,4)
proof (induction eps arbitrary: result)
  case Nil
  then show ?case by simp
next
  case (Cons ep0 rest)
  from Cons.prems(1) obtain mid where
    mid: "parse_endpoint self req plugins result ep0 = Inr mid"
    and rest: "parse_endpoints self req plugins mid rest = Inr result'"
    by (auto split: sum.splits)
  have sub: "\<forall>ep' \<in> set rest. ep' = ep \<or> (k, m) \<notin> set (entry_keys self ep')"
    using Cons.prems(2) by simp
  have "ep \<in> set rest \<or> operation_id_at (Inr mid) k m = Some x"
  proof (cases "ep0 = ep")
    case True
    then show ?thesis using assms(3) mid by blast
  next
    case False
    then have n: "(k, m) \<notin> set (entry_keys self ep0)" using Cons.prems(2) by auto
    from Cons.prems(3) False
    have "ep \<in> set rest \<or> operation_id_at (Inr result) k m = Some x" by auto
    then show ?thesis using parse_endpoint_other [OF mid n] by auto
  qed
  from Cons.IH [OF rest sub this] show ?case .
qed

text \<open>A view that supplies its own tokens has one operation id, whatever the path.\<close>

lemma view_tokens_tokenize_path:
  assumes "view_tokens (view sch) \<noteq> []"
  shows "tokenize_path (sch\<lparr>schema_path := p\<rparr>) = tokenize_path sch"
  using assms unfolding tokenize_path_def view_tokens_def Let_def
  by (auto split: option.splits)

lemma view_tokens_entry_operation_id:
  assumes "view_tokens (view sch) \<noteq> []"
  shows "entry_operation_id r (sch\<lparr>schema_path := p\<rparr>) = entry_operation_id r sch"
proof -
  note t = view_tokens_tokenize_path [OF assms, of p]
  have a: "get_operation_id_action (sch\<lparr>schema_path := p\<rparr>) = get_operation_id_action sch"
    by (simp add: get_operation_id_action_def Let_def cong: option.case_cong if_cong)
  have g: "get_operation_id (sch\<lparr>schema_path := p\<rparr>) = get_operation_id sch"
    unfolding get_operation_id_def a t ..
  have o: "operation_id_override (sch\<lparr>schema_path := p\<rparr>) = operation_id_override sch"
    by simp
  show ?thesis
    unfolding entry_operation_id_def a g t o ..
qed


text \<open>
  Claim C6, amended. First, every entry of the document \<open>parse\<close> returns stands
  under the key of one of the two paths of a route, the path itself or the renamed one,
  and under the lowercased method of that route, and carries the operation id computed
  for that route at that path: the \<open>operation_id\<close> of \<open>@extend_schema\<close> where the
  view has one, else that of \<open>get_operation_id\<close>; under bindings, the action alone
  where the id is the tokens, \<open>_\<close> and the action. Second, take a route that passes the
  plugin filter and the permission check, whose operation is not removed, and to whose
  places no other route of the set writes: the document has an entry under the key of
  its renamed path and one under the key of its path, and where the view supplies its
  own tokens the two carry the same operation id.
\<close>

theorem parse_operation_ids:
  "(operation_id_at (parse self req public) k m = Some i \<longrightarrow>
      (\<exists>r. req = Some r \<and>
         (\<exists>ep \<in> set (endpoints self). \<exists>path.
            (path = orig_path ep \<or>
             convert_endpoint_path_params (orig_path ep) (view (ep_schema ep)) (ep_schema ep)
               = Inr path) \<and>
            m = lower (method (ep_schema ep)) \<and> k = path_key self path \<and>
            entry_operation_id r ((ep_schema ep)\<lparr>schema_path := path\<rparr>) = Inr i))) \<and>
   (parse self (Some r) public = Inr result \<and> ep \<in> set (endpoints self) \<and>
    admitted self r ep \<and>
    convert_endpoint_path_params (orig_path ep) (view (ep_schema ep)) (ep_schema ep)
      = Inr alias \<and>
    base_operation (ep_schema ep) (orig_path ep) \<noteq> None \<and>
    base_operation (ep_schema ep) alias \<noteq> None \<and>
    (\<forall>ep' \<in> set (endpoints self).
        ep' = ep \<or> set (entry_keys self ep') \<inter> set (entry_keys self ep) = {}) \<longrightarrow>
      (\<exists>a b. entry_operation_id r ((ep_schema ep)\<lparr>schema_path := orig_path ep\<rparr>) = Inr a \<and>
             entry_operation_id r ((ep_schema ep)\<lparr>schema_path := alias\<rparr>) = Inr b \<and>
             operation_id_at (Inr result) (path_key self alias)
               (lower (method (ep_schema ep))) = Some b \<and>
             operation_id_at (Inr result) (path_key self (orig_path ep))
               (lower (method (ep_schema ep)))
               = Some (if path_key self (orig_path ep) = path_key self alias then b else a) \<and>
             (view_tokens (view (ep_schema ep)) \<noteq> [] \<longrightarrow> a = b)))"
proof (intro conjI impI)
  assume a: "operation_id_at (parse self req public) k m = Some i"
  then obtain result where res: "parse self req public = Inr result"
    by (cases "parse self req public") (auto simp: operation_id_at_def)
  then obtain plugins where
    pe: "parse_endpoints self req plugins Map.empty (endpoints self) = Inr result"
    unfolding parse_def Let_def by blast
  have "operation_id_at (Inr result) k m = Some i" using a res by simp
  from parse_endpoints_sound [OF pe this]
  show "\<exists>r. req = Some r \<and>
         (\<exists>ep \<in> set (endpoints self). \<exists>path.
            (path = orig_path ep \<or>
             convert_endpoint_path_params (orig_path ep) (view (ep_schema ep)) (ep_schema ep)
               = Inr path) \<and>
            m = lower (method (ep_schema ep)) \<and> k = path_key self path \<and>
            entry_operation_id r ((ep_schema ep)\<lparr>schema_path := path\<rparr>) = Inr i)"
    by (simp add: operation_id_at_def)
next
  let ?plugins = "case map_of (query_params r) ''plugin'' of
                    Some p \<Rightarrow> Some [p] | None \<Rightarrow> None"
  let ?m = "lower (method (ep_schema ep))"
  assume h: "parse self (Some r) public = Inr result \<and> ep \<in> set (endpoints self) \<and>
    admitted self r ep \<and>
    convert_endpoint_path_params (orig_path ep) (view (ep_schema ep)) (ep_schema ep)
      = Inr alias \<and>
    base_operation (ep_schema ep) (orig_path ep) \<noteq> None \<and>
    base_operation (ep_schema ep) alias \<noteq> None \<and>
    (\<forall>ep' \<in> set (endpoints self).
        ep' = ep \<or> set (entry_keys self ep') \<inter> set (entry_keys self ep) = {})"
  then have pe: "parse_endpoints self (Some r) ?plugins Map.empty (endpoints self) = Inr result"
    by (simp add: parse_def)
  from h have ep: "ep \<in> set (endpoints self)" and ad: "admitted self r ep"
    and c: "convert_endpoint_path_params (orig_path ep) (view (ep_schema ep)) (ep_schema ep)
              = Inr alias"
    and b1: "base_operation (ep_schema ep) (orig_path ep) \<noteq> None"
    and b2: "base_operation (ep_schema ep) alias \<noteq> None"
    and d: "\<forall>ep' \<in> set (endpoints self).
        ep' = ep \<or> set (entry_keys self ep') \<inter> set (entry_keys self ep) = {}"
    by blast+
  from parse_endpoints_ran [OF pe ep] obtain res0 res1 where
    "parse_endpoint self (Some r) ?plugins res0 ep = Inr res1" by blast
  from parse_endpoint_write [OF this ad c b1 b2] obtain a b where
    a: "entry_operation_id r ((ep_schema ep)\<lparr>schema_path := orig_path ep\<rparr>) = Inr a"
    and b: "entry_operation_id r ((ep_schema ep)\<lparr>schema_path := alias\<rparr>) = Inr b"
    by blast
  have w: "operation_id_at (Inr res') (path_key self alias) ?m = Some b \<and>
           operation_id_at (Inr res') (path_key self (orig_path ep)) ?m
             = Some (if path_key self (orig_path ep) = path_key self alias then b else a)"
    if "parse_endpoint self (Some r) ?plugins res ep = Inr res'" for res res'
    using parse_endpoint_write [OF that ad c b1 b2] a b by auto
  have ka: "(path_key self alias, ?m) \<in> set (entry_keys self ep)"
    and ko: "(path_key self (orig_path ep), ?m) \<in> set (entry_keys self ep)"
    using c by (simp_all add: entry_keys_def)
  have da: "\<forall>ep' \<in> set (endpoints self).
              ep' = ep \<or> (path_key self alias, ?m) \<notin> set (entry_keys self ep')"
    using d ka by auto
  have do: "\<forall>ep' \<in> set (endpoints self).
              ep' = ep \<or> (path_key self (orig_path ep), ?m) \<notin> set (entry_keys self ep')"
    using d ko by auto
  have ra: "operation_id_at (Inr result) (path_key self alias) ?m = Some b"
    by (rule parse_endpoints_keep [OF pe da _ disjI1 [OF ep]]) (simp add: w)
  have ro: "operation_id_at (Inr result) (path_key self (orig_path ep)) ?m
              = Some (if path_key self (orig_path ep) = path_key self alias then b else a)"
    by (rule parse_endpoints_keep [OF pe do _ disjI1 [OF ep]]) (simp add: w)
  have s: "view_tokens (view (ep_schema ep)) \<noteq> [] \<longrightarrow> a = b"
  proof
    assume "view_tokens (view (ep_schema ep)) \<noteq> []"
    from view_tokens_entry_operation_id [OF this, of r] show "a = b"
      using a b by simp
  qed
  show "\<exists>a b. entry_operation_id r ((ep_schema ep)\<lparr>schema_path := orig_path ep\<rparr>) = Inr a \<and>
             entry_operation_id r ((ep_schema ep)\<lparr>schema_path := alias\<rparr>) = Inr b \<and>
             operation_id_at (Inr result) (path_key self alias)
               (lower (method (ep_schema ep))) = Some b \<and>
             operation_id_at (Inr result) (path_key self (orig_path ep))
               (lower (method (ep_schema ep)))
               = Some (if path_key self (orig_path ep) = path_key self alias then b else a) \<and>
             (view_tokens (view (ep_schema ep)) \<noteq> [] \<longrightarrow> a = b)"
    using a b ra ro s by blast
qed


lemma versions_detail_tokens:
  "tokenize_path (versions_detail\<lparr>schema_path := p\<rparr>) = [''repositories'', ''versions'']"
  by (simp add: tokenize_path_def versions_detail_def versions_view_def RepositoryViewSet_def)

lemma versions_detail_action:
  "get_operation_id_action (versions_detail\<lparr>schema_path := p\<rparr>) = Inr ''read''"
  by (simp add: get_operation_id_action_def versions_detail_def versions_view_def
      method_mapping_def lower_def is_upper_def)

lemma versions_detail_operation_id:
  "get_operation_id (versions_detail\<lparr>schema_path := p\<rparr>) = Inr ''repositories_versions_read''"
  unfolding get_operation_id_def versions_detail_tokens versions_detail_action
  by (simp add: lower_def is_upper_def)

lemma versions_detail_entry_operation_id:
  "entry_operation_id plain_request (versions_detail\<lparr>schema_path := p\<rparr>)
     = Inr ''repositories_versions_read''"
  unfolding entry_operation_id_def versions_detail_operation_id
  by (simp add: versions_detail_def plain_request_def dict_in_def)

lemma versions_detail_converted:
  "convert_endpoint_path_params
      ''/pulp/api/v3/repositories/{repository_pk}/versions/{number}/''
      (view versions_detail) versions_detail
      = Inr ''{core_repositories_repository_version_href}''"
  unfolding convert_endpoint_path_params_def versions_detail_param_name
  by (simp add: contains_def rsplit_head_def)

lemma versions_detail_operation:
  "get_operation versions_detail p
     = Inr (Some (blank_operation\<lparr>operationId := ''repositories_versions_read''\<rparr>))"
proof -
  have b: "base_operation versions_detail p = Some blank_operation"
    and o: "operation_id_override (versions_detail\<lparr>schema_path := p\<rparr>) = None"
    by (simp_all add: versions_detail_def)
  show ?thesis
    unfolding get_operation_def b Let_def o versions_detail_operation_id by simp
qed

lemma versions_generator_path_key:
  "path_key versions_generator ''/pulp/api/v3/repositories/{repository_pk}/versions/{number}/''
     = ''/pulp/api/v3/repositories/{repository_pk}/versions/{number}/''"
  "path_key versions_generator ''{core_repositories_repository_version_href}''
     = ''{core_repositories_repository_version_href}''"
  by (simp_all add: path_key_def versions_generator_def)

lemma versions_detail_parse_path:
  "parse_path versions_generator (Some plain_request) versions_detail result p
     = Inr (result(path_key versions_generator p \<mapsto>
              (case result (path_key versions_generator p) of
                 Some ops \<Rightarrow> ops | None \<Rightarrow> Map.empty)
              (''get'' \<mapsto> \<lparr>operationId = ''repositories_versions_read'',
                  description = ''Versions.'',
                  parameters = Some [fields_parameter, not_fields_parameter]\<rparr>)))"
proof -
  have m: "lower (method versions_detail) = ''get''"
    by (simp add: versions_detail_def lower_def is_upper_def)
  have q: "\<not> dict_in ''include_html'' (query_params plain_request)"
    "\<not> dict_in ''bindings'' (query_params plain_request)"
    by (simp_all add: plain_request_def dict_in_def)
  have s: "strip_tags versions_generator x = x" for x
    by (simp add: versions_generator_def)
  show ?thesis
    unfolding parse_path_def versions_detail_operation
    by (simp add: Let_def q m s blank_operation_def)
qed

lemma versions_generator_parse:
  "parse versions_generator (Some plain_request) True
     = Inr [''/pulp/api/v3/repositories/{repository_pk}/versions/{number}/'' \<mapsto>
              [''get'' \<mapsto> \<lparr>operationId = ''repositories_versions_read'',
                  description = ''Versions.'',
                  parameters = Some [fields_parameter, not_fields_parameter]\<rparr>],
            ''{core_repositories_repository_version_href}'' \<mapsto>
              [''get'' \<mapsto> \<lparr>operationId = ''repositories_versions_read'',
                  description = ''Versions.'',
                  parameters = Some [fields_parameter, not_fields_parameter]\<rparr>]]"
proof -
  have e: "endpoints versions_generator
             = [\<lparr>orig_path = ''/pulp/api/v3/repositories/{repository_pk}/versions/{number}/'',
                 ep_schema = versions_detail\<rparr>]"
    by (simp add: versions_generator_def)
  have p: "has_view_permissions versions_generator x y z" for x y z
    by (simp add: versions_generator_def)
  have q: "map_of (query_params plain_request) ''plugin'' = None"
    by (simp add: plain_request_def)
  have "parse_endpoint versions_generator (Some plain_request) None Map.empty
          \<lparr>orig_path = ''/pulp/api/v3/repositories/{repository_pk}/versions/{number}/'',
           ep_schema = versions_detail\<rparr>
     = Inr [''/pulp/api/v3/repositories/{repository_pk}/versions/{number}/'' \<mapsto>
              [''get'' \<mapsto> \<lparr>operationId = ''repositories_versions_read'',
                  description = ''Versions.'',
                  parameters = Some [fields_parameter, not_fields_parameter]\<rparr>],
            ''{core_repositories_repository_version_href}'' \<mapsto>
              [''get'' \<mapsto> \<lparr>operationId = ''repositories_versions_read'',
                  description = ''Versions.'',
                  parameters = Some [fields_parameter, not_fields_parameter]\<rparr>]]"
    unfolding parse_endpoint_def
    by (simp add: Let_def p versions_detail_converted versions_detail_parse_path
        versions_generator_path_key)
  then show ?thesis
    unfolding parse_def e by (simp add: q)
qed

text \<open>
  Where the base class tokenizes the path, the operation id follows the path: a status
  view gets \<open>status_get\<close> under its path and \<open>_get\<close> under a path that is a
  placeholder alone. And an \<open>operation_id\<close> of \<open>@extend_schema\<close> that is not the
  tokens, \<open>_\<close> and the action is kept under bindings.
\<close>

lemma entry_operation_id_examples:
  "entry_operation_id plain_request
     (status_schema\<lparr>super_tokenize_path := (\<lambda>p. if startswith p ''{'' then [] else [''status'']),
                    schema_path := ''/pulp/api/v3/status/''\<rparr>) = Inr ''status_get''"
  "entry_operation_id plain_request
     (status_schema\<lparr>super_tokenize_path := (\<lambda>p. if startswith p ''{'' then [] else [''status'']),
                    schema_path := ''{status_href}''\<rparr>) = Inr ''_get''"
  "entry_operation_id \<lparr>query_params = [(''bindings'', '''')]\<rparr>
     (status_schema\<lparr>operation_id_override := Some ''status_read''\<rparr>) = Inr ''status_read''"
  by (simp_all add: entry_operation_id_def get_operation_id_def get_operation_id_action_def
      tokenize_path_def status_schema_def plain_request_def dict_in_def lower_def is_upper_def)

text \<open>
  Claim C6, as stated, fails for the document of the detail route of the versions: it
  has two entries, under the path of the route and under its renamed alias, and both
  carry the operation id \<open>repositories_versions_read\<close>.
\<close>

theorem operation_id_not_unique_counterexample:
  "operation_id_at (parse versions_generator (Some plain_request) True)
     ''/pulp/api/v3/repositories/{repository_pk}/versions/{number}/'' ''get''
     = Some ''repositories_versions_read'' \<and>
   operation_id_at (parse versions_generator (Some plain_request) True)
     ''{core_repositories_repository_version_href}'' ''get''
     = Some ''repositories_versions_read'' \<and>
   ''/pulp/api/v3/repositories/{repository_pk}/versions/{number}/''
     \<noteq> ''{core_repositories_repository_version_href}''"
  unfolding versions_generator_parse by (simp add: operation_id_at_def)

theorem parse_operation_ids_witness:
  "operation_id_at (parse versions_generator (Some plain_request) True)
     ''{core_repositories_repository_version_href}'' ''get''
     = Some ''repositories_versions_read'' \<and>
   (\<exists>ep \<in> set (endpoints versions_generator). \<exists>path.
      (path = orig_path ep \<or>
       convert_endpoint_path_params (orig_path ep) (view (ep_schema ep)) (ep_schema ep)
         = Inr path) \<and>
      ''get'' = lower (method (ep_schema ep)) \<and>
      ''{core_repositories_repository_version_href}'' = path_key versions_generator path \<and>
      entry_operation_id plain_request ((ep_schema ep)\<lparr>schema_path := path\<rparr>)
        = Inr ''repositories_versions_read'') \<and>
   (\<exists>result. parse versions_generator (Some plain_request) True = Inr result \<and>
      operation_id_at (Inr result) ''{core_repositories_repository_version_href}'' ''get''
        = Some ''repositories_versions_read'' \<and>
      operation_id_at (Inr result)
        ''/pulp/api/v3/repositories/{repository_pk}/versions/{number}/'' ''get''
        = Some ''repositories_versions_read'')"
proof -
  let ?orig = "''/pulp/api/v3/repositories/{repository_pk}/versions/{number}/''"
  let ?renamed = "''{core_repositories_repository_version_href}''"
  let ?ep = "\<lparr>orig_path = ?orig, ep_schema = versions_detail\<rparr>"
  let ?i = "''repositories_versions_read''"
  obtain result where res: "parse versions_generator (Some plain_request) True = Inr result"
    using versions_generator_parse by blast
  have h: "operation_id_at (parse versions_generator (Some plain_request) True) ?renamed ''get''
             = Some ?i"
    unfolding versions_generator_parse by (simp add: operation_id_at_def)
  note t = parse_operation_ids [of versions_generator "Some plain_request" True ?renamed
      "''get''" ?i plain_request result ?ep ?renamed]
  have s: "\<exists>r. Some plain_request = Some r \<and>
         (\<exists>ep \<in> set (endpoints versions_generator). \<exists>path.
            (path = orig_path ep \<or>
             convert_endpoint_path_params (orig_path ep) (view (ep_schema ep)) (ep_schema ep)
               = Inr path) \<and>
            ''get'' = lower (method (ep_schema ep)) \<and> ?renamed = path_key versions_generator path \<and>
            entry_operation_id r ((ep_schema ep)\<lparr>schema_path := path\<rparr>) = Inr ?i)"
    by (rule mp [OF t [THEN conjunct1] h])
  have e: "?ep \<in> set (endpoints versions_generator)"
    by (simp add: versions_generator_def)
  have ad: "admitted versions_generator plain_request ?ep"
    by (simp add: admitted_def plain_request_def versions_generator_def)
  have c: "convert_endpoint_path_params (orig_path ?ep) (view (ep_schema ?ep)) (ep_schema ?ep)
             = Inr ?renamed"
    using versions_detail_converted by simp
  have b: "base_operation (ep_schema ?ep) (orig_path ?ep) \<noteq> None"
    "base_operation (ep_schema ?ep) ?renamed \<noteq> None"
    by (simp_all add: versions_detail_def)
  have d: "\<forall>ep' \<in> set (endpoints versions_generator).
        ep' = ?ep \<or> set (entry_keys versions_generator ep')
                       \<inter> set (entry_keys versions_generator ?ep) = {}"
    by (simp add: versions_generator_def)
  have v: "view_tokens (view (ep_schema ?ep)) \<noteq> []"
    by (simp add: view_tokens_def versions_detail_def versions_view_def RepositoryViewSet_def)
  have "\<exists>a b. entry_operation_id plain_request ((ep_schema ?ep)\<lparr>schema_path := orig_path ?ep\<rparr>)
                 = Inr a \<and>
             entry_operation_id plain_request ((ep_schema ?ep)\<lparr>schema_path := ?renamed\<rparr>) = Inr b \<and>
             operation_id_at (Inr result) (path_key versions_generator ?renamed)
               (lower (method (ep_schema ?ep))) = Some b \<and>
             operation_id_at (Inr result) (path_key versions_generator (orig_path ?ep))
               (lower (method (ep_schema ?ep)))
               = Some (if path_key versions_generator (orig_path ?ep)
                            = path_key versions_generator ?renamed then b else a) \<and>
             (view_tokens (view (ep_schema ?ep)) \<noteq> [] \<longrightarrow> a = b)"
    using t [THEN conjunct2] res e ad c b d by blast
  then obtain a b where
    ab: "entry_operation_id plain_request ((ep_schema ?ep)\<lparr>schema_path := ?renamed\<rparr>) = Inr b"
    and ra: "operation_id_at (Inr result) (path_key versions_generator ?renamed)
               (lower (method (ep_schema ?ep))) = Some b"
    and ro: "operation_id_at (Inr result) (path_key versions_generator (orig_path ?ep))
               (lower (method (ep_schema ?ep)))
               = Some (if path_key versions_generator (orig_path ?ep)
                            = path_key versions_generator ?renamed then b else a)"
    and eq: "view_tokens (view (ep_schema ?ep)) \<noteq> [] \<longrightarrow> a = b"
    by blast
  have bv: "b = ?i" using ab versions_detail_entry_operation_id [of ?renamed] by simp
  have av: "a = ?i" using eq v bv by simp
  have m: "lower (method (ep_schema ?ep)) = ''get''"
    by (simp add: versions_detail_def lower_def is_upper_def)
  have r1: "operation_id_at (Inr result) ?renamed ''get'' = Some ?i"
    using ra unfolding m versions_generator_path_key bv .
  have r2: "operation_id_at (Inr result) ?orig ''get'' = Some ?i"
    using ro unfolding m bv av by (simp add: versions_generator_path_key)
  from s have s': "\<exists>ep \<in> set (endpoints versions_generator). \<exists>path.
            (path = orig_path ep \<or>
             convert_endpoint_path_params (orig_path ep) (view (ep_schema ep)) (ep_schema ep)
               = Inr path) \<and>
            ''get'' = lower (method (ep_schema ep)) \<and> ?renamed = path_key versions_generator path \<and>
            entry_operation_id plain_request ((ep_schema ep)\<lparr>schema_path := path\<rparr>) = Inr ?i"
    by simp
  show ?thesis using h s' res r1 r2 by blast
qed

end
